theory Spec2Isabelle
  imports Main "HOL-Library.Word"
begin

unbundle bit_operations_syntax

text \<open>
  A shallow embedding of ObscuraRT's frame sources (\<^verbatim>\<open>frame_grabber.cpp\<close>), of the shader
  loader and the resource lifecycle of its compute pipeline (\<^verbatim>\<open>compute_pipeline.cpp\<close>) and of
  the per-frame upload (\<^verbatim>\<open>main.cpp\<close>), followed by the properties proved about them.  The
  operating system and the Vulkan device are explicit states that record the calls made on
  them.
\<close>

section \<open>Machine types, errors and bounds-checked memory\<close>

type_synonym u8 = "8 word"
type_synonym u32 = "32 word"

text \<open>
  Outcomes of the C++ code that are not a normal return: a thrown
  \<^verbatim>\<open>std::runtime_error\<close> with its message, and the two kinds of undefined
  behaviour the sources can reach (a read or write past the end of a buffer, an integer
  division by zero).  Sizes of type \<^verbatim>\<open>size_t\<close> are 64 bits wide (LP64 Linux, the
  platform of the V4L2 headers) and are modelled by \<^typ>\<open>nat\<close>; every 32-bit
  computation is done on \<^typ>\<open>u32\<close> before it is widened.
\<close>

datatype error = RuntimeError string | OutOfBounds | DivideByZero

text \<open>\<^verbatim>\<open>std::vector<uint8_t>::resize(n)\<close>: keeps the first \<open>n\<close> elements, pads with zero.\<close>

definition resize :: "u8 list \<Rightarrow> nat \<Rightarrow> u8 list" where
  "resize v n = take n v @ replicate (n - length v) 0"

text \<open>Stores through a raw pointer at offset \<open>p\<close> of a buffer; past the end is undefined.\<close>

definition write_bytes :: "u8 list \<Rightarrow> nat \<Rightarrow> u8 list \<Rightarrow> error + u8 list" where
  "write_bytes buf p bs =
     (if p + length bs \<le> length buf
      then Inr (take p buf @ bs @ drop (p + length bs) buf)
      else Inl OutOfBounds)"

text \<open>Loads of \<open>n\<close> bytes through a raw pointer at offset \<open>p\<close>.\<close>

definition read_bytes :: "u8 list \<Rightarrow> nat \<Rightarrow> nat \<Rightarrow> error + u8 list" where
  "read_bytes buf p n =
     (if p + n \<le> length buf then Inr (take n (drop p buf)) else Inl OutOfBounds)"

text \<open>A counting \<^verbatim>\<open>for\<close> loop whose body may fail: the body runs once per index, in order,
  and the first failure ends the loop.\<close>

fun for_each :: "('i \<Rightarrow> 's \<Rightarrow> error + 's) \<Rightarrow> 'i list \<Rightarrow> 's \<Rightarrow> error + 's" where
  "for_each body [] s = Inr s"
| "for_each body (i # is) s =
     (case body i s of Inl e \<Rightarrow> Inl e | Inr s' \<Rightarrow> for_each body is s')"

section \<open>frame\_grabber.h: Frame and FrameGrabber\<close>

record Frame =
  width :: u32
  height :: u32
  stride :: u32
  data :: "u8 list"

definition getTotalBytes :: "Frame \<Rightarrow> nat" where
  "getTotalBytes f = length (data f)"

text \<open>The members \<^verbatim>\<open>width_\<close>, \<^verbatim>\<open>height_\<close>, \<^verbatim>\<open>frame_count_\<close>; a trailing underscore is
  not a legal name here, so it is written as a prime.\<close>

record FrameGrabber =
  width' :: u32
  height' :: u32
  frame_count' :: u32

definition FrameGrabber_new :: "u32 \<Rightarrow> u32 \<Rightarrow> FrameGrabber" where
  "FrameGrabber_new w h = \<lparr>width' = w, height' = h, frame_count' = 0\<rparr>"

section \<open>FrameGrabber::grabFrame (test pattern)\<close>

text \<open>The body of the inner loop: the four channel bytes of pixel \<open>(x, y)\<close>.  All
  arithmetic is \<^verbatim>\<open>uint32_t\<close> (products and sums wrap), the quotient is truncated to
  \<^verbatim>\<open>uint8_t\<close>, and a zero divisor is undefined behaviour.\<close>

definition gradient_pixel :: "u32 \<Rightarrow> u32 \<Rightarrow> u32 \<Rightarrow> u32 \<Rightarrow> error + u8 list" where
  "gradient_pixel w h x y =
     (if w = 0 \<or> h = 0 \<or> w + h = 0 then Inl DivideByZero
      else Inr [ucast ((x * 255) div w),
                ucast ((y * 255) div h),
                ucast (((x + y) * 255) div (w + h)),
                255])"

text \<open>One iteration of the inner loop: compute the pixel, store it at \<^verbatim>\<open>ptr\<close>, advance
  \<^verbatim>\<open>ptr\<close> by four.  The loop state is the buffer together with the offset of \<^verbatim>\<open>ptr\<close>.\<close>

definition put_pixel :: "u32 \<Rightarrow> u32 \<Rightarrow> nat \<Rightarrow> nat \<Rightarrow> u8 list \<times> nat \<Rightarrow> error + u8 list \<times> nat" where
  "put_pixel w h y x s =
     (case gradient_pixel w h (of_nat x) (of_nat y) of
        Inl e \<Rightarrow> Inl e
      | Inr px \<Rightarrow>
          (case write_bytes (fst s) (snd s) px of
             Inl e \<Rightarrow> Inl e
           | Inr buf \<Rightarrow> Inr (buf, snd s + 4)))"

definition put_row :: "u32 \<Rightarrow> u32 \<Rightarrow> nat \<Rightarrow> u8 list \<times> nat \<Rightarrow> error + u8 list \<times> nat" where
  "put_row w h y s = for_each (put_pixel w h y) [0 ..< unat w] s"

text \<open>\<^verbatim>\<open>grabFrame\<close> returns its \<^verbatim>\<open>bool\<close>, the caller's frame as it leaves it, and the
  grabber.  \<^verbatim>\<open>pixels\<close> is the 32-bit product \<^verbatim>\<open>width_ * height_\<close> widened to \<^verbatim>\<open>size_t\<close>.\<close>

definition FrameGrabber_grabFrame :: "FrameGrabber \<Rightarrow> Frame \<Rightarrow> error + bool \<times> Frame \<times> FrameGrabber" where
  "FrameGrabber_grabFrame g out_frame =
     (let f1 = out_frame\<lparr>width := width' g, height := height' g, stride := width' g * 4\<rparr>;
          pixels = unat (width' g * height' g);
          buf0 = resize (data f1) (pixels * 4)
      in case for_each (put_row (width' g) (height' g)) [0 ..< unat (height' g)] (buf0, 0) of
           Inl e \<Rightarrow> Inl e
         | Inr s \<Rightarrow> Inr (True, f1\<lparr>data := fst s\<rparr>, g\<lparr>frame_count' := frame_count' g + 1\<rparr>))"

section \<open>WebcamGrabber::yuyv2rgba\<close>

text \<open>\<^verbatim>\<open>int\<close> is a 32-bit two's complement word, read through \<^const>\<open>sint\<close>.  \<^verbatim>\<open>std::min(a, b)\<close>
  is \<^verbatim>\<open>(b < a) ? b : a\<close> and \<^verbatim>\<open>std::max(a, b)\<close> is \<^verbatim>\<open>(a < b) ? b : a\<close>, both on signed values.\<close>

definition std_min :: "32 word \<Rightarrow> 32 word \<Rightarrow> 32 word" where
  "std_min a b = (if b <s a then b else a)"

definition std_max :: "32 word \<Rightarrow> 32 word \<Rightarrow> 32 word" where
  "std_max a b = (if a <s b then b else a)"

text \<open>\<^verbatim>\<open>rgba[k] = std::max(0, std::min(255, r))\<close>: the clamped \<^verbatim>\<open>int\<close> narrowed to \<^verbatim>\<open>uint8_t\<close>.\<close>

definition clamp_u8 :: "32 word \<Rightarrow> u8" where
  "clamp_u8 r = ucast (std_max 0 (std_min 255 r))"

text \<open>One output pixel from a luma byte and the shared chroma bytes.  The bytes are promoted
  to \<^verbatim>\<open>int\<close>; \<^verbatim>\<open>>> 8\<close> on \<^verbatim>\<open>int\<close> is the arithmetic shift.\<close>

definition yuv_pixel :: "u8 \<Rightarrow> u8 \<Rightarrow> u8 \<Rightarrow> u8 list" where
  "yuv_pixel y u v =
     (let c = (ucast y :: 32 word) - 16;
          d = (ucast u :: 32 word) - 128;
          e = (ucast v :: 32 word) - 128;
          r = signed_drop_bit 8 (298 * c + 409 * e + 128);
          g = signed_drop_bit 8 (298 * c - 100 * d - 208 * e + 128);
          b = signed_drop_bit 8 (298 * c + 516 * d + 128)
      in [clamp_u8 r, clamp_u8 g, clamp_u8 b, 255])"

text \<open>The eight bytes written for one group \<^verbatim>\<open>yuyv[0..3] = Y1 U Y2 V\<close>.\<close>

definition convert_group :: "u8 list \<Rightarrow> u8 list" where
  "convert_group grp =
     yuv_pixel (grp ! 0) (grp ! 1) (grp ! 3) @ yuv_pixel (grp ! 2) (grp ! 1) (grp ! 3)"

text \<open>The loop \<^verbatim>\<open>for (uint32_t i = 0; i < pixels; i += 2)\<close>.  The pointers advance by 4 and 8
  bytes per iteration, so at counter \<open>i\<close> they stand at offsets \<open>2 * i\<close> and \<open>4 * i\<close>.  The
  counter can only wrap (\<open>i + 2 = 2 ^ 32\<close>) when \<open>pixels = 2 ^ 32 - 1\<close>; the loop then never
  exits while both pointers keep advancing, so it runs off the end of the buffers.\<close>

function yuyv2rgba_loop :: "u8 list \<Rightarrow> nat \<Rightarrow> nat \<Rightarrow> u8 list \<Rightarrow> error + u8 list" where
  "yuyv2rgba_loop yuyv pixels i rgba =
     (if i < pixels then
        (case read_bytes yuyv (2 * i) 4 of
           Inl e \<Rightarrow> Inl e
         | Inr grp \<Rightarrow>
             (case write_bytes rgba (4 * i) (convert_group grp) of
                Inl e \<Rightarrow> Inl e
              | Inr rgba' \<Rightarrow>
                  if i + 2 < 2 ^ 32 then yuyv2rgba_loop yuyv pixels (i + 2) rgba'
                  else Inl OutOfBounds))
      else Inr rgba)"
  by pat_completeness auto
termination
  by (relation "measure (\<lambda>(yuyv, pixels, i, rgba). pixels - i)") auto

declare yuyv2rgba_loop.simps [simp del]

definition yuyv2rgba :: "u8 list \<Rightarrow> u8 list \<Rightarrow> u32 \<Rightarrow> error + u8 list" where
  "yuyv2rgba yuyv rgba pixels = yuyv2rgba_loop yuyv (unat pixels) 0 rgba"

section \<open>The capture device as seen through the system calls\<close>

datatype syscall =
  SysOpen string | SysClose int | SysQueryCap int | SysSetFormat int u32 u32 | SysRead int nat

datatype read_result = ReadFails | ReadData "u8 list"

text \<open>The environment of \<^verbatim>\<open>WebcamGrabber\<close>: what \<^verbatim>\<open>open\<close> returns for a path (negative on
  failure), the capability word \<^verbatim>\<open>VIDIOC_QUERYCAP\<close> reports (\<open>None\<close> when the ioctl fails), the
  resolution \<^verbatim>\<open>VIDIOC_S_FMT\<close> settles on for a requested one (\<open>None\<close> when it fails), what the
  coming \<^verbatim>\<open>read\<close> calls will deliver, and the calls made so far.\<close>

record OS =
  open_result :: "string \<Rightarrow> int"
  querycap :: "u32 option"
  set_format :: "u32 \<Rightarrow> u32 \<Rightarrow> (u32 \<times> u32) option"
  pending_reads :: "read_result list"
  trace :: "syscall list"

definition log_call :: "syscall \<Rightarrow> OS \<Rightarrow> OS" where
  "log_call c os = os\<lparr>trace := trace os @ [c]\<rparr>"

text \<open>\<^verbatim>\<open>read(fd, buf, n)\<close>: the return value and the bytes stored into \<^verbatim>\<open>buf\<close>.  A call
  delivers at most \<open>n\<close> bytes of the next pending chunk; with nothing pending it returns 0.\<close>

definition sys_read :: "OS \<Rightarrow> int \<Rightarrow> nat \<Rightarrow> (int \<times> u8 list) \<times> OS" where
  "sys_read os fd n =
     (case pending_reads os of
        [] \<Rightarrow> ((0, []), log_call (SysRead fd n) os)
      | ReadFails # rest \<Rightarrow> ((- 1, []), log_call (SysRead fd n) (os\<lparr>pending_reads := rest\<rparr>))
      | ReadData bs # rest \<Rightarrow>
          ((int (length (take n bs)), take n bs),
           log_call (SysRead fd n) (os\<lparr>pending_reads := rest\<rparr>)))"

definition sys_close :: "OS \<Rightarrow> int \<Rightarrow> OS" where
  "sys_close os fd = log_call (SysClose fd) os"

text \<open>\<^verbatim>\<open>V4L2_CAP_VIDEO_CAPTURE\<close> of \<^verbatim>\<open>linux/videodev2.h\<close>.\<close>

definition V4L2_CAP_VIDEO_CAPTURE :: u32 where
  "V4L2_CAP_VIDEO_CAPTURE = 1"

section \<open>WebcamGrabber\<close>

record WebcamGrabber = FrameGrabber +
  fd' :: int
  buffer' :: "u8 list"
  device' :: string

definition WebcamGrabber_new :: "u32 \<Rightarrow> u32 \<Rightarrow> string \<Rightarrow> WebcamGrabber" where
  "WebcamGrabber_new w h dev =
     \<lparr>width' = w, height' = h, frame_count' = 0, fd' = - 1, buffer' = [], device' = dev\<rparr>"

definition WebcamGrabber_cleanup :: "WebcamGrabber \<Rightarrow> OS \<Rightarrow> WebcamGrabber \<times> OS" where
  "WebcamGrabber_cleanup g os =
     (if 0 \<le> fd' g
      then (g\<lparr>fd' := - 1, buffer' := []\<rparr>, sys_close os (fd' g))
      else (g\<lparr>buffer' := []\<rparr>, os))"

definition initV4L2 :: "WebcamGrabber \<Rightarrow> OS \<Rightarrow> bool \<times> WebcamGrabber \<times> OS" where
  "initV4L2 g os =
     (let fd = open_result os (device' g);
          os1 = log_call (SysOpen (device' g)) os;
          g1 = g\<lparr>fd' := fd\<rparr>;
          os2 = log_call (SysQueryCap fd) os1;
          os3 = log_call (SysSetFormat fd (width' g) (height' g)) os2
      in if fd < 0 then (False, g1, os1)
         else
           (case querycap os of
              None \<Rightarrow> (False, g1\<lparr>fd' := - 1\<rparr>, sys_close os2 fd)
            | Some caps \<Rightarrow>
                (if caps AND V4L2_CAP_VIDEO_CAPTURE = 0
                 then (False, g1\<lparr>fd' := - 1\<rparr>, sys_close os2 fd)
                 else
                   (case set_format os (width' g) (height' g) of
                      None \<Rightarrow> (False, g1\<lparr>fd' := - 1\<rparr>, sys_close os3 fd)
                    | Some fmt \<Rightarrow>
                        (let g2 = (if fst fmt \<noteq> width' g \<or> snd fmt \<noteq> height' g
                                   then g1\<lparr>width' := fst fmt, height' := snd fmt\<rparr> else g1);
                             g3 = g2\<lparr>buffer' :=
                                       resize (buffer' g2) (unat (width' g2 * height' g2 * 4))\<rparr>
                         in (True, g3, os3))))))"

definition WebcamGrabber_init ::
  "string option \<Rightarrow> WebcamGrabber \<Rightarrow> OS \<Rightarrow> error + WebcamGrabber \<times> OS" where
  "WebcamGrabber_init source g os =
     (let g0 = (case source of None \<Rightarrow> g | Some p \<Rightarrow> g\<lparr>device' := p\<rparr>)
      in case initV4L2 g0 os of
           (ok, g1, os1) \<Rightarrow>
             if ok then Inr (g1, os1) else Inl (RuntimeError ''V4L2 initialization failed''))"

text \<open>\<^verbatim>\<open>WebcamGrabber::grabFrame\<close>.  \<^verbatim>\<open>yuyv_buffer\<close> is a fresh zero-filled vector of
  \<^verbatim>\<open>width_ * height_ * 2\<close> bytes (a 32-bit product) that \<^verbatim>\<open>read\<close> fills from the front.\<close>

definition WebcamGrabber_grabFrame ::
  "WebcamGrabber \<Rightarrow> OS \<Rightarrow> Frame \<Rightarrow> error + bool \<times> Frame \<times> WebcamGrabber \<times> OS" where
  "WebcamGrabber_grabFrame g os out_frame =
     (if fd' g < 0 then Inr (False, out_frame, g, os)
      else
        let n = unat (width' g * height' g * 2);
            r = sys_read os (fd' g) n;
            bytes_read = fst (fst r);
            yuyv_buffer = snd (fst r) @ replicate (n - length (snd (fst r))) 0;
            os1 = snd r
        in if bytes_read \<noteq> int n then Inr (False, out_frame, g, os1)
           else
             case yuyv2rgba yuyv_buffer (buffer' g) (width' g * height' g) of
               Inl e \<Rightarrow> Inl e
             | Inr rgba \<Rightarrow>
                 Inr (True,
                      out_frame\<lparr>width := width' g, height := height' g,
                                stride := width' g * 4, data := rgba\<rparr>,
                      g\<lparr>buffer' := rgba, frame_count' := frame_count' g + 1\<rparr>,
                      os1))"

section \<open>compute\_pipeline.cpp: readShaderFile\<close>

text \<open>A \<^verbatim>\<open>std::vector<uint32_t>\<close> seen through \<^verbatim>\<open>(char*)buffer.data()\<close>: four bytes per word,
  least significant first (the byte order of the x86 and ARM Linux targets).\<close>

definition bytes_of_word :: "u32 \<Rightarrow> u8 list" where
  "bytes_of_word w = [ucast w, ucast (drop_bit 8 w), ucast (drop_bit 16 w), ucast (drop_bit 24 w)]"

definition word_of_bytes :: "u8 list \<Rightarrow> u32" where
  "word_of_bytes bs =
     ucast (bs ! 0) OR push_bit 8 (ucast (bs ! 1)) OR push_bit 16 (ucast (bs ! 2))
       OR push_bit 24 (ucast (bs ! 3))"

definition bytes_of_words :: "u32 list \<Rightarrow> u8 list" where
  "bytes_of_words ws = concat (map bytes_of_word ws)"

fun words_of_bytes :: "u8 list \<Rightarrow> u32 list" where
  "words_of_bytes (a # b # c # d # rest) = word_of_bytes [a, b, c, d] # words_of_bytes rest"
| "words_of_bytes rest = []"

text \<open>The file system is a partial map from paths to file contents; a path that is not
  mapped cannot be opened.  \<^verbatim>\<open>file.read\<close> stores \<^verbatim>\<open>fileSize\<close> bytes through the byte view of a
  vector of \<^verbatim>\<open>fileSize / sizeof(uint32_t)\<close> words.\<close>

definition readShaderFile :: "(string \<rightharpoonup> u8 list) \<Rightarrow> string \<Rightarrow> error + u32 list" where
  "readShaderFile fs filename =
     (case fs filename of
        None \<Rightarrow> Inl (RuntimeError (''Failed to open shader file: '' @ filename))
      | Some contents \<Rightarrow>
          (let fileSize = length contents;
               buffer = replicate (fileSize div 4) (0 :: u32)
           in (case write_bytes (bytes_of_words buffer) 0 (take fileSize contents) of
                 Inl e \<Rightarrow> Inl e
               | Inr raw \<Rightarrow> Inr (words_of_bytes raw))))"

section \<open>The Vulkan device as seen through the API calls\<close>

datatype vk_object =
  VkImage | VkDeviceMemory | VkImageView | VkBuffer | VkShaderModule | VkDescriptorSetLayout
  | VkPipelineLayout | VkPipeline | VkDescriptorPool | VkDescriptorSet | VkCommandBuffer | VkFence

datatype vk_call = Created vk_object nat | Destroyed vk_object nat

text \<open>Handles are natural numbers and \<open>0\<close> is \<^verbatim>\<open>VK_NULL_HANDLE\<close>.  The device hands out the
  handles \<open>1, 2, 3, \<dots>\<close>; a creation call fails (anything but \<^verbatim>\<open>VK_SUCCESS\<close>) once the
  \<open>budget\<close> of creations the device can still serve is used up, and leaves the handle it was
  given untouched.  \<open>memory\<close> holds the bytes of each \<^verbatim>\<open>VkDeviceMemory\<close> allocation; an
  allocation has exactly the size asked for.\<close>

record VkDevice =
  created :: nat
  budget :: nat
  calls :: "vk_call list"
  memory :: "nat \<Rightarrow> u8 list"

definition vk_create :: "vk_object \<Rightarrow> VkDevice \<Rightarrow> nat option \<times> VkDevice" where
  "vk_create k vk =
     (if budget vk = 0 then (None, vk)
      else (Some (Suc (created vk)),
            vk\<lparr>created := Suc (created vk), budget := budget vk - 1,
                calls := calls vk @ [Created k (Suc (created vk))]\<rparr>))"

definition vk_allocate_memory :: "nat \<Rightarrow> VkDevice \<Rightarrow> nat option \<times> VkDevice" where
  "vk_allocate_memory n vk =
     (case vk_create VkDeviceMemory vk of
        (None, vk') \<Rightarrow> (None, vk')
      | (Some h, vk') \<Rightarrow> (Some h, vk'\<lparr>memory := (memory vk')(h := replicate n 0)\<rparr>))"

definition vk_destroy :: "vk_object \<Rightarrow> nat \<Rightarrow> VkDevice \<Rightarrow> VkDevice" where
  "vk_destroy k h vk = vk\<lparr>calls := calls vk @ [Destroyed k h]\<rparr>"

section \<open>ComputePipeline\<close>

text \<open>The members of \<^verbatim>\<open>ComputePipeline\<close> that the source file uses, without the trailing
  underscore; \<^verbatim>\<open>width_\<close> and \<^verbatim>\<open>height_\<close> are \<open>cp_width\<close> and \<open>cp_height\<close>.\<close>

record ComputePipeline =
  cp_width :: u32
  cp_height :: u32
  input_image :: nat
  output_image :: nat
  input_image_memory :: nat
  output_image_memory :: nat
  input_image_view :: nat
  output_image_view :: nat
  staging_buffer :: nat
  staging_buffer_memory :: nat
  compute_shader :: nat
  descriptor_set_layout :: nat
  pipeline_layout :: nat
  compute_pipeline :: nat
  descriptor_pool :: nat
  descriptor_sets :: "nat \<times> nat"
  compute_command_buffer :: nat
  compute_fence :: nat

text \<open>A member function that may throw: the exception, if any, and the object and device
  as the throw leaves them.\<close>

type_synonym step = "ComputePipeline \<times> VkDevice \<Rightarrow> error option \<times> ComputePipeline \<times> VkDevice"

text \<open>\<^verbatim>\<open>if (vkCreateX(..., &member) != VK_SUCCESS) throw std::runtime_error(msg)\<close>.\<close>

definition create_or_throw ::
  "vk_object \<Rightarrow> (nat \<Rightarrow> ComputePipeline \<Rightarrow> ComputePipeline) \<Rightarrow> string \<Rightarrow> step" where
  "create_or_throw k store msg s =
     (case vk_create k (snd s) of
        (None, vk') \<Rightarrow> (Some (RuntimeError msg), fst s, vk')
      | (Some h, vk') \<Rightarrow> (None, store h (fst s), vk'))"

definition allocate_or_throw ::
  "nat \<Rightarrow> (nat \<Rightarrow> ComputePipeline \<Rightarrow> ComputePipeline) \<Rightarrow> string \<Rightarrow> step" where
  "allocate_or_throw n store msg s =
     (case vk_allocate_memory n (snd s) of
        (None, vk') \<Rightarrow> (Some (RuntimeError msg), fst s, vk')
      | (Some h, vk') \<Rightarrow> (None, store h (fst s), vk'))"

text \<open>Statements in sequence: the first exception ends the sequence.\<close>

fun run_steps :: "step list \<Rightarrow> step" where
  "run_steps [] s = (None, s)"
| "run_steps (f # fs) s =
     (case f s of (None, s') \<Rightarrow> run_steps fs s' | (Some e, s') \<Rightarrow> (Some e, s'))"

text \<open>\<^verbatim>\<open>createImages\<close>: both images, then both allocations (of the size the device requires
  for the image, here its \<open>width * height * 4\<close> bytes), then both views.  The two calls joined
  by \<^verbatim>\<open>||\<close> are made left to right and share one message.\<close>

definition createImages :: step where
  "createImages s =
     run_steps
       [create_or_throw VkImage (\<lambda>h c. c\<lparr>input_image := h\<rparr>) ''Failed to create images'',
        create_or_throw VkImage (\<lambda>h c. c\<lparr>output_image := h\<rparr>) ''Failed to create images'',
        allocate_or_throw (unat (cp_width (fst s)) * unat (cp_height (fst s)) * 4)
          (\<lambda>h c. c\<lparr>input_image_memory := h\<rparr>) ''Failed to allocate image memory'',
        allocate_or_throw (unat (cp_width (fst s)) * unat (cp_height (fst s)) * 4)
          (\<lambda>h c. c\<lparr>output_image_memory := h\<rparr>) ''Failed to allocate image memory'',
        create_or_throw VkImageView (\<lambda>h c. c\<lparr>input_image_view := h\<rparr>)
          ''Failed to create input image view'',
        create_or_throw VkImageView (\<lambda>h c. c\<lparr>output_image_view := h\<rparr>)
          ''Failed to create output image view''] s"

text \<open>\<^verbatim>\<open>createStagingBuffer\<close>: \<^verbatim>\<open>bufferInfo.size = width_ * height_ * 4\<close> is a 32-bit product.\<close>

definition createStagingBuffer :: step where
  "createStagingBuffer s =
     run_steps
       [create_or_throw VkBuffer (\<lambda>h c. c\<lparr>staging_buffer := h\<rparr>) ''Failed to create staging buffer'',
        allocate_or_throw (unat (cp_width (fst s) * cp_height (fst s) * 4))
          (\<lambda>h c. c\<lparr>staging_buffer_memory := h\<rparr>) ''Failed to allocate staging buffer memory''] s"

definition createShaderModule :: "(string \<rightharpoonup> u8 list) \<Rightarrow> step" where
  "createShaderModule fs s =
     (case readShaderFile fs ''shaders/pixelation.comp.spv'' of
        Inl e \<Rightarrow> (Some e, s)
      | Inr code \<Rightarrow>
          create_or_throw VkShaderModule (\<lambda>h c. c\<lparr>compute_shader := h\<rparr>)
            ''Failed to create compute shader module'' s)"

definition createDescriptorSetLayout :: step where
  "createDescriptorSetLayout =
     create_or_throw VkDescriptorSetLayout (\<lambda>h c. c\<lparr>descriptor_set_layout := h\<rparr>)
       ''Failed to create descriptor set layout''"

definition createPipelineLayout :: step where
  "createPipelineLayout =
     create_or_throw VkPipelineLayout (\<lambda>h c. c\<lparr>pipeline_layout := h\<rparr>)
       ''Failed to create pipeline layout''"

definition createComputePipeline :: step where
  "createComputePipeline =
     create_or_throw VkPipeline (\<lambda>h c. c\<lparr>compute_pipeline := h\<rparr>)
       ''Failed to create compute pipeline''"

definition createDescriptorPool :: step where
  "createDescriptorPool =
     create_or_throw VkDescriptorPool (\<lambda>h c. c\<lparr>descriptor_pool := h\<rparr>)
       ''Failed to create descriptor pool''"

text \<open>\<^verbatim>\<open>allocateDescriptorSets\<close>: one call that allocates both sets or none.\<close>

definition allocateDescriptorSets :: step where
  "allocateDescriptorSets s =
     (let vk = snd s
      in if budget vk = 0 then (Some (RuntimeError ''Failed to allocate descriptor sets''), s)
         else (None,
               (fst s)\<lparr>descriptor_sets := (Suc (created vk), Suc (Suc (created vk)))\<rparr>,
               vk\<lparr>created := Suc (Suc (created vk)), budget := budget vk - 1,
                   calls := calls vk @ [Created VkDescriptorSet (Suc (created vk)),
                                        Created VkDescriptorSet (Suc (Suc (created vk)))]\<rparr>))"

text \<open>\<^verbatim>\<open>updateDescriptorSets\<close> writes both sets; it creates nothing and cannot throw.\<close>

definition updateDescriptorSets :: step where
  "updateDescriptorSets s = (None, s)"

definition createCommandBuffer :: step where
  "createCommandBuffer =
     create_or_throw VkCommandBuffer (\<lambda>h c. c\<lparr>compute_command_buffer := h\<rparr>)
       ''Failed to allocate command buffer''"

definition createSynchronization :: step where
  "createSynchronization =
     create_or_throw VkFence (\<lambda>h c. c\<lparr>compute_fence := h\<rparr>) ''Failed to create fence''"

definition ComputePipeline_init :: "(string \<rightharpoonup> u8 list) \<Rightarrow> u32 \<Rightarrow> u32 \<Rightarrow> step" where
  "ComputePipeline_init fs w h s =
     run_steps
       [createImages, createStagingBuffer, createShaderModule fs, createDescriptorSetLayout,
        createPipelineLayout, createComputePipeline, createDescriptorPool,
        allocateDescriptorSets, updateDescriptorSets, createCommandBuffer,
        createSynchronization]
       ((fst s)\<lparr>cp_width := w, cp_height := h\<rparr>, snd s)"

text \<open>\<^verbatim>\<open>if (member != VK_NULL_HANDLE) vkDestroyX(device, member, nullptr)\<close>: the member keeps
  its value.\<close>

definition destroy_if_set :: "vk_object \<Rightarrow> nat \<Rightarrow> VkDevice \<Rightarrow> VkDevice" where
  "destroy_if_set k h vk = (if h \<noteq> 0 then vk_destroy k h vk else vk)"

definition ComputePipeline_cleanup :: "ComputePipeline \<times> VkDevice \<Rightarrow> ComputePipeline \<times> VkDevice" where
  "ComputePipeline_cleanup s =
     (let c = fst s
      in (c,
          foldl (\<lambda>vk kh. destroy_if_set (fst kh) (snd kh) vk) (snd s)
            [(VkFence, compute_fence c),
             (VkDescriptorPool, descriptor_pool c),
             (VkPipeline, compute_pipeline c),
             (VkPipelineLayout, pipeline_layout c),
             (VkDescriptorSetLayout, descriptor_set_layout c),
             (VkShaderModule, compute_shader c),
             (VkImageView, input_image_view c),
             (VkImageView, output_image_view c),
             (VkImage, input_image c),
             (VkImage, output_image c),
             (VkDeviceMemory, input_image_memory c),
             (VkDeviceMemory, output_image_memory c),
             (VkBuffer, staging_buffer c),
             (VkDeviceMemory, staging_buffer_memory c)]))"

section \<open>main.cpp: the per-frame upload of ObscuraRT::run\<close>

text \<open>Modelled from the spec: the getters \<^verbatim>\<open>getStagingBufferSize\<close> and
  \<^verbatim>\<open>getStagingBufferMemory\<close> are declared in \<^verbatim>\<open>compute_pipeline.h\<close>, which is not among the
  sources; the staging buffer is "sized \<^verbatim>\<open>width*height*4\<close> bytes", the size
  \<^verbatim>\<open>createStagingBuffer\<close> asks for.\<close>

definition getStagingBufferSize :: "ComputePipeline \<Rightarrow> nat" where
  "getStagingBufferSize c = unat (cp_width c * cp_height c * 4)"

definition getStagingBufferMemory :: "ComputePipeline \<Rightarrow> nat" where
  "getStagingBufferMemory c = staging_buffer_memory c"

text \<open>\<^verbatim>\<open>vkMapMemory\<close> of the first \<^verbatim>\<open>getStagingBufferSize()\<close> bytes, \<^verbatim>\<open>memcpy\<close> of
  \<^verbatim>\<open>frame.getTotalBytes()\<close> bytes to the start of the mapping, \<^verbatim>\<open>vkUnmapMemory\<close>.  Nothing
  compares the two sizes; a copy that runs past the mapping is undefined.\<close>

definition upload :: "ComputePipeline \<Rightarrow> VkDevice \<Rightarrow> Frame \<Rightarrow> error + VkDevice" where
  "upload c vk frame =
     (let m = getStagingBufferMemory c;
          mapped = take (getStagingBufferSize c) (memory vk m);
          rest = drop (getStagingBufferSize c) (memory vk m)
      in case write_bytes mapped 0 (take (getTotalBytes frame) (data frame)) of
           Inl e \<Rightarrow> Inl e
         | Inr mapped' \<Rightarrow> Inr (vk\<lparr>memory := (memory vk)(m := mapped' @ rest)\<rparr>))"

section \<open>Successive acquisition calls\<close>

text \<open>A caller that calls \<^verbatim>\<open>grabFrame\<close> once per frame object handed in, as the loop of
  \<^verbatim>\<open>ObscuraRT::run\<close> does with its fresh \<^verbatim>\<open>Frame\<close>, and keeps the frames of the calls that
  returned \<^verbatim>\<open>true\<close>.\<close>

fun grab_frames :: "Frame list \<Rightarrow> WebcamGrabber \<Rightarrow> OS \<Rightarrow> Frame list" where
  "grab_frames [] g os = []"
| "grab_frames (f # fs) g os =
     (case WebcamGrabber_grabFrame g os f of
        Inl e \<Rightarrow> []
      | Inr r \<Rightarrow>
          (if fst r then [fst (snd r)] else [])
            @ grab_frames fs (fst (snd (snd r))) (snd (snd (snd r))))"

section \<open>Reading the device's call log\<close>

text \<open>The objects a log creates and the objects it destroys, each in the order of the calls.\<close>

fun created_objects :: "vk_call list \<Rightarrow> (vk_object \<times> nat) list" where
  "created_objects [] = []"
| "created_objects (Created k h # cs) = (k, h) # created_objects cs"
| "created_objects (Destroyed k h # cs) = created_objects cs"

fun destroyed_objects :: "vk_call list \<Rightarrow> (vk_object \<times> nat) list" where
  "destroyed_objects [] = []"
| "destroyed_objects (Created k h # cs) = destroyed_objects cs"
| "destroyed_objects (Destroyed k h # cs) = (k, h) # destroyed_objects cs"

section \<open>Closed forms of the loops\<close>

text \<open>The bytes the test-pattern loops store, pixel by pixel and row by row, written without
  the buffer: \<open>gp\<close> is the value \<^const>\<open>gradient_pixel\<close> returns when no divisor is zero.\<close>

definition gp :: "u32 \<Rightarrow> u32 \<Rightarrow> nat \<Rightarrow> nat \<Rightarrow> u8 list" where
  "gp w h y x = [ucast ((of_nat x * 255) div w), ucast ((of_nat y * 255) div h),
                 ucast (((of_nat x + of_nat y) * 255) div (w + h)), 255]"

definition row_bytes :: "u32 \<Rightarrow> u32 \<Rightarrow> nat \<Rightarrow> u8 list" where
  "row_bytes w h y = concat (map (gp w h y) [0 ..< unat w])"

definition pattern :: "u32 \<Rightarrow> u32 \<Rightarrow> u8 list" where
  "pattern w h = concat (map (row_bytes w h) [0 ..< unat h])"

section \<open>The BT.601 formulas as the specification words them\<close>

text \<open>The specification's channel formulas over the integers: \<open>c = Y - 16\<close>, \<open>d = U - 128\<close>,
  \<open>e = V - 128\<close>, the sum shifted right by eight (rounding down) and clamped to \<open>[0, 255]\<close>.\<close>

definition spec_red :: "int \<Rightarrow> int \<Rightarrow> int \<Rightarrow> int" where
  "spec_red Y U V = max 0 (min 255 ((298 * (Y - 16) + 409 * (V - 128) + 128) div 256))"

definition spec_green :: "int \<Rightarrow> int \<Rightarrow> int \<Rightarrow> int" where
  "spec_green Y U V =
     max 0 (min 255 ((298 * (Y - 16) - 100 * (U - 128) - 208 * (V - 128) + 128) div 256))"

definition spec_blue :: "int \<Rightarrow> int \<Rightarrow> int \<Rightarrow> int" where
  "spec_blue Y U V = max 0 (min 255 ((298 * (Y - 16) + 516 * (U - 128) + 128) div 256))"

section \<open>Concrete inputs for the worked examples\<close>

definition empty_frame :: Frame where
  "empty_frame = \<lparr>width = 0, height = 0, stride = 0, data = []\<rparr>"

text \<open>A capture device that opens as descriptor 3, reports the capture capability, settles
  every format request on \<open>2 \<times> 1\<close>, and will deliver a short read, a failed read and then one
  full frame.\<close>

definition video_os :: OS where
  "video_os =
     \<lparr>open_result = (\<lambda>p. 3), querycap = Some 1, set_format = (\<lambda>w h. Some (2, 1)),
      pending_reads = [ReadData [1, 2, 3], ReadFails, ReadData [128, 128, 128, 128]],
      trace = []\<rparr>"

text \<open>A grabber on that device after negotiation, and one as constructed for \<open>1920 \<times> 1080\<close>.\<close>

definition open_cam :: WebcamGrabber where
  "open_cam = (WebcamGrabber_new 2 1 ''/dev/video0'')\<lparr>fd' := 3, buffer' := replicate 8 0\<rparr>"

definition hd_cam :: WebcamGrabber where
  "hd_cam = WebcamGrabber_new 1920 1080 ''/dev/video0''"

text \<open>An open grabber for \<open>65536 \<times> 65536\<close>, whose 32-bit sizes all wrap to zero, and the
  capture device again, now settling every format request on \<open>65536 \<times> 16384\<close>.\<close>

definition tall_cam :: WebcamGrabber where
  "tall_cam = (WebcamGrabber_new 65536 65536 ''/dev/video0'')\<lparr>fd' := 3\<rparr>"

definition wide_os :: OS where
  "wide_os = video_os\<lparr>set_format := (\<lambda>w h. Some (65536, 16384))\<rparr>"

text \<open>The asset directory with a four-byte shader (the SPIR-V magic number) and with a
  five-byte one.\<close>

definition fs_ok :: "string \<rightharpoonup> u8 list" where
  "fs_ok = [''shaders/pixelation.comp.spv'' \<mapsto> [3, 2, 35, 7]]"

definition fs_misaligned :: "string \<rightharpoonup> u8 list" where
  "fs_misaligned = [''shaders/pixelation.comp.spv'' \<mapsto> [3, 2, 35, 7, 0]]"

text \<open>A device that has served no call yet and can serve a hundred creations.\<close>

definition fresh_device :: VkDevice where
  "fresh_device = \<lparr>created = 0, budget = 100, calls = [], memory = (\<lambda>h. [])\<rparr>"

text \<open>Modelled from the spec: the member initialisers of \<^verbatim>\<open>ComputePipeline\<close> are in
  \<^verbatim>\<open>compute_pipeline.h\<close>, which is not among the sources; \<^verbatim>\<open>cleanup\<close> is to be "a no-op on
  already-null handles", so an object that was never initialised holds \<^verbatim>\<open>VK_NULL_HANDLE\<close> in
  every handle.  \<^verbatim>\<open>init\<close> overwrites every member, so nothing proved about an initialised
  pipeline depends on these values.\<close>

definition null_pipeline :: ComputePipeline where
  "null_pipeline =
     \<lparr>cp_width = 0, cp_height = 0, input_image = 0, output_image = 0,
      input_image_memory = 0, output_image_memory = 0, input_image_view = 0,
      output_image_view = 0, staging_buffer = 0, staging_buffer_memory = 0,
      compute_shader = 0, descriptor_set_layout = 0, pipeline_layout = 0,
      compute_pipeline = 0, descriptor_pool = 0, descriptor_sets = (0, 0),
      compute_command_buffer = 0, compute_fence = 0\<rparr>"

text \<open>The pipeline and the device after \<^verbatim>\<open>init(2, 2)\<close> on that fresh device, and a frame of
  four bytes.\<close>

definition ready_pipeline :: "ComputePipeline \<times> VkDevice" where
  "ready_pipeline = snd (ComputePipeline_init fs_ok 2 2 (null_pipeline, fresh_device))"

definition short_frame :: Frame where
  "short_frame = \<lparr>width = 1, height = 1, stride = 4, data = [1, 2, 3, 4]\<rparr>"

section \<open>The test pattern (claim C1)\<close>

lemma length_gp: "length (gp w h y x) = 4" by (simp add: gp_def)

lemma concat_uniform_length:
  "(\<And>i. i \<in> set is \<Longrightarrow> length (f i) = m) \<Longrightarrow> length (concat (map f is)) = m * length is"
  by (induction "is") auto

lemma concat_uniform_nth:
  assumes "\<And>i. i < n \<Longrightarrow> length (f i) = m" and "i < n" and "k < m"
  shows "concat (map f [0 ..< n]) ! (i * m + k) = f i ! k"
  using assms
proof (induction n)
  case 0 then show ?case by simp
next
  case (Suc n)
  have len: "length (concat (map f [0 ..< n])) = m * n"
    using concat_uniform_length [of "[0 ..< n]" f m] Suc.prems(1) by simp
  show ?case
  proof (cases "i < n")
    case True
    have "i * m + k < m * n"
    proof -
      have "i * m + k < i * m + m" using Suc.prems(3) by simp
      also have "\<dots> = (Suc i) * m" by simp
      also have "\<dots> \<le> n * m" using True by (intro mult_le_mono1) simp
      finally show ?thesis by (simp add: mult.commute)
    qed
    then show ?thesis using Suc True len by (simp add: nth_append)
  next
    case False
    then have "i = n" using Suc.prems(2) by simp
    then show ?thesis using len by (simp add: nth_append mult.commute)
  qed
qed

lemma for_each_blocks:
  assumes body: "\<And>i buf p. i \<in> set is \<Longrightarrow> p + m \<le> length buf \<Longrightarrow>
             body i (buf, p) = Inr (take p buf @ f i @ drop (p + m) buf, p + m)"
    and len: "\<And>i. i \<in> set is \<Longrightarrow> length (f i) = m"
    and fit: "p + m * length is \<le> length buf"
  shows "for_each body is (buf, p) =
         Inr (take p buf @ concat (map f is) @ drop (p + m * length is) buf, p + m * length is)"
  using assms
proof (induction "is" arbitrary: buf p)
  case Nil then show ?case by simp
next
  case (Cons i "is")
  let ?buf = "take p buf @ f i @ drop (p + m) buf"
  have fi: "length (f i) = m" using Cons.prems(2) by simp
  have pm: "p + m \<le> length buf" using Cons.prems(3) by simp
  have step: "body i (buf, p) = Inr (?buf, p + m)"
    using Cons.prems(1) pm by simp
  have len: "length ?buf = length buf" using pm fi by simp
  have IH: "for_each body is (?buf, p + m) =
      Inr (take (p + m) ?buf @ concat (map f is) @ drop (p + m + m * length is) ?buf,
           p + m + m * length is)"
  proof (rule Cons.IH)
    show "\<And>j buf p. j \<in> set is \<Longrightarrow> p + m \<le> length buf \<Longrightarrow>
             body j (buf, p) = Inr (take p buf @ f j @ drop (p + m) buf, p + m)"
      using Cons.prems(1) by simp
    show "\<And>j. j \<in> set is \<Longrightarrow> length (f j) = m" using Cons.prems(2) by simp
    show "p + m + m * length is \<le> length ?buf" using Cons.prems(3) len by simp
  qed
  have t: "take (p + m) ?buf = take p buf @ f i"
    using pm fi by simp
  have d: "drop (p + m + m * length is) ?buf = drop (p + m + m * length is) buf"
    using Cons.prems(3) fi by (simp add: add.commute)
  show ?case using step IH t d by (simp add: add.assoc)
qed

lemma put_pixel_ok:
  assumes "w \<noteq> 0" "h \<noteq> 0" "w + h \<noteq> 0" "p + 4 \<le> length buf"
  shows "put_pixel w h y x (buf, p) = Inr (take p buf @ gp w h y x @ drop (p + 4) buf, p + 4)"
proof -
  have e: "Suc (Suc (Suc (Suc p))) = p + 4" by simp
  show ?thesis
    using assms by (simp add: put_pixel_def gradient_pixel_def write_bytes_def gp_def e)
qed

lemma length_row_bytes: "length (row_bytes w h y) = 4 * unat w"
  using concat_uniform_length [of "[0 ..< unat w]" "gp w h y" 4]
  by (simp add: row_bytes_def length_gp)

lemma put_row_ok:
  assumes nz: "w \<noteq> 0 \<longrightarrow> h \<noteq> 0 \<and> w + h \<noteq> 0"
    and fit: "p + 4 * unat w \<le> length buf"
  shows "put_row w h y (buf, p) =
         Inr (take p buf @ row_bytes w h y @ drop (p + 4 * unat w) buf, p + 4 * unat w)"
proof (cases "w = 0")
  case True
  then show ?thesis by (simp add: put_row_def row_bytes_def)
next
  case False
  have "for_each (put_pixel w h y) [0 ..< unat w] (buf, p) =
        Inr (take p buf @ concat (map (gp w h y) [0 ..< unat w])
               @ drop (p + 4 * length [0 ..< unat w]) buf, p + 4 * length [0 ..< unat w])"
    using False nz fit by (intro for_each_blocks put_pixel_ok length_gp) simp_all
  then show ?thesis by (simp add: put_row_def row_bytes_def)
qed

lemma length_pattern: "length (pattern w h) = 4 * unat w * unat h"
  using concat_uniform_length [of "[0 ..< unat h]" "row_bytes w h" "4 * unat w"]
  by (simp add: pattern_def length_row_bytes)

lemma put_rows_ok:
  assumes nz: "w \<noteq> 0 \<and> h \<noteq> 0 \<longrightarrow> w + h \<noteq> 0"
    and fit: "4 * unat w * unat h \<le> length buf"
  shows "for_each (put_row w h) [0 ..< unat h] (buf, 0) =
         Inr (pattern w h @ drop (4 * unat w * unat h) buf, 4 * unat w * unat h)"
proof (cases "h = 0")
  case True
  then show ?thesis by (simp add: pattern_def)
next
  case False
  then have nz': "w \<noteq> 0 \<longrightarrow> h \<noteq> 0 \<and> w + h \<noteq> 0" using nz by simp
  have "for_each (put_row w h) [0 ..< unat h] (buf, 0) =
        Inr (take 0 buf @ concat (map (row_bytes w h) [0 ..< unat h])
               @ drop (0 + 4 * unat w * length [0 ..< unat h]) buf,
             0 + 4 * unat w * length [0 ..< unat h])"
    using nz' fit by (intro for_each_blocks put_row_ok length_row_bytes) simp_all
  then show ?thesis by (simp add: pattern_def)
qed

lemma FrameGrabber_grabFrame_pattern:
  assumes "unat (width' g) * unat (height' g) < 2 ^ 32"
    and "unat (width' g) + unat (height' g) < 2 ^ 32"
  shows "FrameGrabber_grabFrame g out_frame =
         Inr (True,
              \<lparr>width = width' g, height = height' g, stride = width' g * 4,
               data = pattern (width' g) (height' g)\<rparr>,
              g\<lparr>frame_count' := frame_count' g + 1\<rparr>)"
proof -
  let ?w = "width' g" and ?h = "height' g"
  have prod: "unat (?w * ?h) = unat ?w * unat ?h"
    using assms(1) by (simp add: unat_mult_lem [THEN iffD1])
  have sum: "unat (?w + ?h) = unat ?w + unat ?h"
    using assms(2) by (simp add: unat_add_lem [THEN iffD1])
  have nz: "?w \<noteq> 0 \<and> ?h \<noteq> 0 \<longrightarrow> ?w + ?h \<noteq> 0"
    using sum by (metis add_is_0 unat_eq_0)
  let ?buempty_frame = "resize (data out_frame) (unat (?w * ?h) * 4)"
  have l0: "length ?buempty_frame = 4 * unat ?w * unat ?h"
    using prod by (simp add: resize_def)
  have loop: "for_each (put_row ?w ?h) [0 ..< unat ?h] (?buempty_frame, 0) =
         Inr (pattern ?w ?h @ drop (4 * unat ?w * unat ?h) ?buempty_frame, 4 * unat ?w * unat ?h)"
    using nz l0 by (intro put_rows_ok) simp_all
  show ?thesis
    using loop l0 by (simp add: FrameGrabber_grabFrame_def Let_def)
qed

lemma pattern_nth:
  assumes "x < unat w" "y < unat h" "k < 4"
  shows "pattern w h ! (4 * (y * unat w + x) + k) = gp w h y x ! k"
proof -
  have r: "row_bytes w h y ! (x * 4 + k) = gp w h y x ! k"
    unfolding row_bytes_def using assms by (intro concat_uniform_nth length_gp) simp_all
  have "x * 4 + k < 4 * unat w" using assms by simp
  then have "pattern w h ! (y * (4 * unat w) + (x * 4 + k)) = row_bytes w h y ! (x * 4 + k)"
    unfolding pattern_def using assms by (intro concat_uniform_nth length_row_bytes) simp_all
  moreover have "y * (4 * unat w) + (x * 4 + k) = 4 * (y * unat w + x) + k"
    by (simp add: algebra_simps)
  ultimately show ?thesis using r by simp
qed

lemma unat_scaled_div:
  fixes d :: u32
  assumes "255 * n < 2 ^ 32" "n < unat d"
  shows "unat (ucast ((of_nat n * 255 :: u32) div d) :: u8) = n * 255 div unat d"
proof -
  have n: "unat (of_nat n :: u32) = n"
    using assms(1) by (simp add: unat_of_nat take_bit_nat_eq_self)
  have "unat (of_nat n :: u32) * unat (255 :: u32) < 2 ^ LENGTH(32)"
    using assms(1) n by simp
  then have "unat (of_nat n * 255 :: u32) = n * 255"
    using n by (simp add: unat_mult_lem [THEN iffD1])
  then have q: "unat ((of_nat n * 255 :: u32) div d) = n * 255 div unat d"
    by (simp add: unat_div)
  have "n * 255 div unat d < 256"
  proof -
    have "n * 255 < unat d * 256" using assms(2) by simp
    then show ?thesis using assms(2) by (simp add: less_mult_imp_div_less mult.commute)
  qed
  then show ?thesis using q by (simp add: unsigned_ucast_eq take_bit_nat_eq_self)
qed

lemma gp_values:
  assumes "x < unat w" "y < unat h" "255 * (x + y) < 2 ^ 32" "unat w + unat h < 2 ^ 32"
  shows "unat (gp w h y x ! 0) = x * 255 div unat w"
    and "unat (gp w h y x ! 1) = y * 255 div unat h"
    and "unat (gp w h y x ! 2) = (x + y) * 255 div (unat w + unat h)"
    and "gp w h y x ! 3 = 255"
proof -
  have sum: "unat (w + h) = unat w + unat h"
    using assms(4) by (simp add: unat_add_lem [THEN iffD1])
  show "unat (gp w h y x ! 0) = x * 255 div unat w"
    using assms unat_scaled_div [of x w] by (simp add: gp_def)
  show "unat (gp w h y x ! 1) = y * 255 div unat h"
    using assms unat_scaled_div [of y h] by (simp add: gp_def)
  have "x + y < unat (w + h)" using assms sum by simp
  then have "unat (ucast ((of_nat (x + y) * 255 :: u32) div (w + h)) :: u8)
             = (x + y) * 255 div unat (w + h)"
    using assms(3) by (intro unat_scaled_div) simp_all
  then show "unat (gp w h y x ! 2) = (x + y) * 255 div (unat w + unat h)"
    using sum by (simp add: gp_def)
  show "gp w h y x ! 3 = 255" by (simp add: gp_def)
qed

text \<open>
  Claim C1, as amended.  For a grabber whose dimensions \<open>W \<times> H\<close> satisfy \<open>W * H < 2 ^ 32\<close> and
  \<open>W + H < 2 ^ 32\<close>, \<^verbatim>\<open>grabFrame\<close> returns \<^verbatim>\<open>true\<close> with a frame of \<open>4 * W * H\<close> bytes in which
  every pixel \<open>(x, y)\<close> with \<open>x < W\<close>, \<open>y < H\<close> and \<open>255 * (x + y) < 2 ^ 32\<close> has the channels
  \<open>r = \<lfloor>x * 255 / W\<rfloor>\<close>, \<open>g = \<lfloor>y * 255 / H\<rfloor>\<close>, \<open>b = \<lfloor>(x + y) * 255 / (W + H)\<rfloor>\<close>, \<open>a = 255\<close>
  at byte offset \<open>4 * (y * W + x)\<close>; and any other call with the same dimensions, whatever its
  frame counter and whatever frame the caller passes in, returns the very same frame.
\<close>

theorem test_pattern_pixels:
  assumes "unat (width' g) * unat (height' g) < 2 ^ 32"
    and "unat (width' g) + unat (height' g) < 2 ^ 32"
  shows "\<exists>fr g'. FrameGrabber_grabFrame g out_frame = Inr (True, fr, g')
           \<and> width fr = width' g \<and> height fr = height' g
           \<and> length (data fr) = 4 * unat (width' g) * unat (height' g)
           \<and> (\<forall>x y. x < unat (width' g) \<and> y < unat (height' g) \<and> 255 * (x + y) < 2 ^ 32 \<longrightarrow>
                 unat (data fr ! (4 * (y * unat (width' g) + x))) = x * 255 div unat (width' g)
               \<and> unat (data fr ! (4 * (y * unat (width' g) + x) + 1)) = y * 255 div unat (height' g)
               \<and> unat (data fr ! (4 * (y * unat (width' g) + x) + 2))
                    = (x + y) * 255 div (unat (width' g) + unat (height' g))
               \<and> data fr ! (4 * (y * unat (width' g) + x) + 3) = 255)
           \<and> (\<forall>g2 out2. width' g2 = width' g \<and> height' g2 = height' g \<longrightarrow>
                 (\<exists>g2'. FrameGrabber_grabFrame g2 out2 = Inr (True, fr, g2')))"
proof -
  let ?w = "width' g" and ?h = "height' g"
  let ?fr = "\<lparr>width = ?w, height = ?h, stride = ?w * 4, data = pattern ?w ?h\<rparr>"
  have run: "FrameGrabber_grabFrame g out_frame = Inr (True, ?fr, g\<lparr>frame_count' := frame_count' g + 1\<rparr>)"
    using assms by (rule FrameGrabber_grabFrame_pattern)
  have px: "unat (data ?fr ! (4 * (y * unat ?w + x))) = x * 255 div unat ?w
          \<and> unat (data ?fr ! (4 * (y * unat ?w + x) + 1)) = y * 255 div unat ?h
          \<and> unat (data ?fr ! (4 * (y * unat ?w + x) + 2)) = (x + y) * 255 div (unat ?w + unat ?h)
          \<and> data ?fr ! (4 * (y * unat ?w + x) + 3) = 255"
    if "x < unat ?w" "y < unat ?h" "255 * (x + y) < 2 ^ 32" for x y
    using that assms(2) pattern_nth [of x ?w y ?h 0] pattern_nth [of x ?w y ?h 1]
      pattern_nth [of x ?w y ?h 2] pattern_nth [of x ?w y ?h 3]
      gp_values [of x ?w y ?h]
    by simp
  have again: "\<exists>g2'. FrameGrabber_grabFrame g2 out2 = Inr (True, ?fr, g2')"
    if "width' g2 = ?w" "height' g2 = ?h" for g2 out2
    using FrameGrabber_grabFrame_pattern [of g2 out2] assms that by simp
  show ?thesis
    using run px again by (simp add: length_pattern)
qed

text \<open>The theorem at a \<open>2 \<times> 2\<close> grabber: pixel \<open>(1, 1)\<close> is \<open>(127, 127, 127, 255)\<close>, and a
  grabber whose counter stands at 7 returns the same frame.\<close>

theorem test_pattern_pixels_witness:
  "unat (width' (FrameGrabber_new 2 2)) * unat (height' (FrameGrabber_new 2 2)) < 2 ^ 32
   \<and> unat (width' (FrameGrabber_new 2 2)) + unat (height' (FrameGrabber_new 2 2)) < 2 ^ 32
   \<and> (\<exists>fr g'. FrameGrabber_grabFrame (FrameGrabber_new 2 2) empty_frame = Inr (True, fr, g')
         \<and> length (data fr) = 16
         \<and> unat (data fr ! 12) = 127 \<and> unat (data fr ! 13) = 127
         \<and> unat (data fr ! 14) = 127 \<and> data fr ! 15 = 255
         \<and> (\<exists>g2'. FrameGrabber_grabFrame (FrameGrabber_new 2 2\<lparr>frame_count' := 7\<rparr>) empty_frame = Inr (True, fr, g2')))"
proof -
  let ?g = "FrameGrabber_new 2 2"
  have h1: "unat (width' ?g) * unat (height' ?g) < 2 ^ 32"
    and h2: "unat (width' ?g) + unat (height' ?g) < 2 ^ 32"
    by (simp_all add: FrameGrabber_new_def)
  obtain fr g' where r: "FrameGrabber_grabFrame ?g empty_frame = Inr (True, fr, g')"
    and len: "length (data fr) = 4 * unat (width' ?g) * unat (height' ?g)"
    and px: "\<forall>x y. x < unat (width' ?g) \<and> y < unat (height' ?g) \<and> 255 * (x + y) < 2 ^ 32 \<longrightarrow>
                 unat (data fr ! (4 * (y * unat (width' ?g) + x))) = x * 255 div unat (width' ?g)
               \<and> unat (data fr ! (4 * (y * unat (width' ?g) + x) + 1)) = y * 255 div unat (height' ?g)
               \<and> unat (data fr ! (4 * (y * unat (width' ?g) + x) + 2))
                    = (x + y) * 255 div (unat (width' ?g) + unat (height' ?g))
               \<and> data fr ! (4 * (y * unat (width' ?g) + x) + 3) = 255"
    and det: "\<forall>g2 out2. width' g2 = width' ?g \<and> height' g2 = height' ?g \<longrightarrow>
                 (\<exists>g2'. FrameGrabber_grabFrame g2 out2 = Inr (True, fr, g2'))"
    using test_pattern_pixels [OF h1 h2, of empty_frame] by blast
  have p: "unat (data fr ! 12) = 127 \<and> unat (data fr ! 13) = 127
         \<and> unat (data fr ! 14) = 127 \<and> data fr ! 15 = 255"
    using px [rule_format, of 1 1] by (simp add: FrameGrabber_new_def)
  have d: "\<exists>g2'. FrameGrabber_grabFrame (?g\<lparr>frame_count' := 7\<rparr>) empty_frame = Inr (True, fr, g2')"
    using det [rule_format, of "?g\<lparr>frame_count' := 7\<rparr>" empty_frame] by simp
  have l: "length (data fr) = 16" using len by (simp add: FrameGrabber_new_def)
  show ?thesis using h1 h2 r p d l by blast
qed

text \<open>Claim C1 as stated fails for wide frames: at \<open>W = 16843011\<close>, \<open>H = 1\<close> the product
  \<open>x * 255\<close> of the last pixel \<open>x = 16843010\<close> wraps around in \<^verbatim>\<open>uint32_t\<close> to 254, so the red
  byte is 0, while \<open>\<lfloor>x * 255 / W\<rfloor> = 254\<close>.\<close>

theorem test_pattern_overflow_counterexample:
  "\<not> isl (FrameGrabber_grabFrame (FrameGrabber_new 16843011 1) empty_frame)
   \<and> unat (data (fst (snd (projr (FrameGrabber_grabFrame (FrameGrabber_new 16843011 1) empty_frame))))
             ! (4 * (0 * 16843011 + 16843010))) = 0
   \<and> (16843010 * 255) div 16843011 = (254 :: nat)"
proof -
  let ?g = "FrameGrabber_new 16843011 1"
  have "FrameGrabber_grabFrame ?g empty_frame =
         Inr (True,
              \<lparr>width = width' ?g, height = height' ?g, stride = width' ?g * 4,
               data = pattern (width' ?g) (height' ?g)\<rparr>,
              ?g\<lparr>frame_count' := frame_count' ?g + 1\<rparr>)"
    by (rule FrameGrabber_grabFrame_pattern) (simp_all add: FrameGrabber_new_def)
  moreover have "pattern 16843011 1 ! (4 * (0 * unat (16843011 :: u32) + 16843010) + 0)
                 = gp 16843011 1 0 16843010 ! 0"
    by (rule pattern_nth) simp_all
  moreover have "gp 16843011 1 0 16843010 ! 0 = 0"
    by (simp add: gp_def)
  ultimately show ?thesis by (simp add: FrameGrabber_new_def)
qed

section \<open>The colour conversion (claims C2 and C3)\<close>

lemma sint_small:
  fixes k :: int
  assumes "- (2 ^ 31) \<le> k" "k < 2 ^ 31"
  shows "sint (word_of_int k :: 32 word) = k"
  using assms by (simp add: sint_sbintrunc' signed_take_bit_int_eq_self)

lemma clamp_u8_sint:
  "uint (clamp_u8 r) = max 0 (min 255 (sint r))"
proof -
  let ?m = "std_min 255 r"
  have m: "sint ?m = min 255 (sint r)"
    by (simp add: std_min_def word_sless_alt min_def)
  have x: "sint (std_max 0 ?m) = max 0 (sint ?m)"
    by (simp add: std_max_def word_sless_alt max_def)
  let ?k = "max 0 (min 255 (sint r))"
  have k: "0 \<le> ?k" "?k \<le> 255" by simp_all
  have "word_of_int (sint (std_max 0 ?m)) = std_max 0 ?m" by simp
  then have "std_max 0 ?m = word_of_int ?k"
    unfolding x m by simp
  then have "uint (clamp_u8 r) = take_bit 8 (take_bit 32 ?k)"
    by (simp add: clamp_u8_def unsigned_ucast_eq uint_word_of_int_eq)
  also have "\<dots> = ?k"
    using k by (simp add: take_bit_int_eq_self del: max_less_iff_conj min_less_iff_conj)
  finally show ?thesis .
qed

lemma uint_u8_less: "uint (y :: u8) < 256"
  using uint_lt2p [of y] by simp

lemma sint_affine:
  fixes y u v :: u8 and a b c k :: int
  assumes "\<bar>a\<bar> \<le> 600" "\<bar>b\<bar> \<le> 600" "\<bar>c\<bar> \<le> 600" "\<bar>k\<bar> \<le> 200000"
  shows "sint (word_of_int (a * (uint y - 16) + b * (uint u - 128) + c * (uint v - 128) + k) :: 32 word)
         = a * (uint y - 16) + b * (uint u - 128) + c * (uint v - 128) + k"
proof -
  have Y: "\<bar>uint y - 16\<bar> \<le> 240"
    using uint_u8_less [of y] uint_ge_0 [of y] by arith
  have U: "\<bar>uint u - 128\<bar> \<le> 128"
    using uint_u8_less [of u] uint_ge_0 [of u] by arith
  have V: "\<bar>uint v - 128\<bar> \<le> 128"
    using uint_u8_less [of v] uint_ge_0 [of v] by arith
  have A: "\<bar>a * (uint y - 16)\<bar> \<le> 600 * 240"
    unfolding abs_mult using assms(1) Y by (intro mult_mono) simp_all
  have B: "\<bar>b * (uint u - 128)\<bar> \<le> 600 * 128"
    unfolding abs_mult using assms(2) U by (intro mult_mono) simp_all
  have C: "\<bar>c * (uint v - 128)\<bar> \<le> 600 * 128"
    unfolding abs_mult using assms(3) V by (intro mult_mono) simp_all
  show ?thesis
  proof -
    define e where "e = a * (uint y - 16) + b * (uint u - 128) + c * (uint v - 128) + k"
    have "- 2147483648 \<le> e \<and> e < 2147483648"
      unfolding e_def using A B C assms(4) by arith
    then have "sint (word_of_int e :: 32 word) = e"
      by (intro sint_small) simp_all
    then show ?thesis unfolding e_def .
  qed
qed


lemma r_word:
  "298 * (word_of_int Y - 16) + 409 * (word_of_int V - 128) + 128
   = (word_of_int (298 * (Y - 16) + 0 * (U - 128) + 409 * (V - 128) + 128) :: 32 word)"
  by simp

lemma g_word:
  "298 * (word_of_int Y - 16) - 100 * (word_of_int U - 128) - 208 * (word_of_int V - 128) + 128
   = (word_of_int (298 * (Y - 16) + (-100) * (U - 128) + (-208) * (V - 128) + 128) :: 32 word)"
  by simp

lemma b_word:
  "298 * (word_of_int Y - 16) + 516 * (word_of_int U - 128) + 128
   = (word_of_int (298 * (Y - 16) + 516 * (U - 128) + 0 * (V - 128) + 128) :: 32 word)"
  by simp

lemma yuv_pixel_sint:
  "yuv_pixel y u v =
     [clamp_u8 (signed_drop_bit 8 (word_of_int (298 * (uint y - 16) + 0 * (uint u - 128) + 409 * (uint v - 128) + 128))),
      clamp_u8 (signed_drop_bit 8 (word_of_int (298 * (uint y - 16) + (-100) * (uint u - 128) + (-208) * (uint v - 128) + 128))),
      clamp_u8 (signed_drop_bit 8 (word_of_int (298 * (uint y - 16) + 516 * (uint u - 128) + 0 * (uint v - 128) + 128))),
      255]"
  unfolding yuv_pixel_def Let_def ucast_eq
  unfolding r_word [of "uint y" "uint v" "uint u"] g_word b_word [of "uint y" "uint u" "uint v"] ..

lemma yuv_pixel_values:
  "uint (yuv_pixel y u v ! 0) = max 0 (min 255 ((298 * (uint y - 16) + 409 * (uint v - 128) + 128) div 256))"
  "uint (yuv_pixel y u v ! 1) =
     max 0 (min 255 ((298 * (uint y - 16) - 100 * (uint u - 128) - 208 * (uint v - 128) + 128) div 256))"
  "uint (yuv_pixel y u v ! 2) = max 0 (min 255 ((298 * (uint y - 16) + 516 * (uint u - 128) + 128) div 256))"
  "yuv_pixel y u v ! 3 = 255"
proof -
  show "uint (yuv_pixel y u v ! 0) = max 0 (min 255 ((298 * (uint y - 16) + 409 * (uint v - 128) + 128) div 256))"
    using sint_affine [of 298 0 409 128 y u v]
    by (simp add: yuv_pixel_sint clamp_u8_sint sint_signed_drop_bit_eq drop_bit_eq_div
        del: max_less_iff_conj min_less_iff_conj)
  show "uint (yuv_pixel y u v ! 1) =
     max 0 (min 255 ((298 * (uint y - 16) - 100 * (uint u - 128) - 208 * (uint v - 128) + 128) div 256))"
    using sint_affine [of 298 "-100" "-208" 128 y u v]
    by (simp add: yuv_pixel_sint clamp_u8_sint sint_signed_drop_bit_eq drop_bit_eq_div
        del: max_less_iff_conj min_less_iff_conj)
  show "uint (yuv_pixel y u v ! 2) = max 0 (min 255 ((298 * (uint y - 16) + 516 * (uint u - 128) + 128) div 256))"
    using sint_affine [of 298 516 0 128 y u v]
    by (simp add: yuv_pixel_sint clamp_u8_sint sint_signed_drop_bit_eq drop_bit_eq_div
        del: max_less_iff_conj min_less_iff_conj)
  show "yuv_pixel y u v ! 3 = 255" by (simp add: yuv_pixel_def Let_def)
qed

lemma length_yuv_pixel: "length (yuv_pixel y u v) = 4"
  by (simp add: yuv_pixel_def Let_def)

lemma length_convert_group: "length (convert_group grp) = 8"
  by (simp add: convert_group_def length_yuv_pixel)

lemma yuyv2rgba_loop_inv:
  "yuyv2rgba_loop yuyv pixels i rgba = Inr out \<Longrightarrow>
     length out = length rgba
     \<and> take (4 * i) out = take (4 * i) rgba
     \<and> (\<forall>m. i + 2 * m < pixels \<longrightarrow>
            2 * (i + 2 * m) + 4 \<le> length yuyv
            \<and> 4 * (i + 2 * m) + 8 \<le> length out
            \<and> take 8 (drop (4 * (i + 2 * m)) out)
                = convert_group (take 4 (drop (2 * (i + 2 * m)) yuyv)))"
proof (induction yuyv pixels i rgba arbitrary: out rule: yuyv2rgba_loop.induct)
  case (1 yuyv pixels i rgba)
  show ?case
  proof (cases "i < pixels")
    case False
    then have "out = rgba"
      using "1.prems" by (simp add: yuyv2rgba_loop.simps [of yuyv pixels i rgba])
    then show ?thesis using False by simp
  next
    case True
    let ?grp = "take 4 (drop (2 * i) yuyv)"
    let ?cg = "convert_group ?grp"
    let ?rgba' = "take (4 * i) rgba @ ?cg @ drop (4 * i + 8) rgba"
    have rd: "2 * i + 4 \<le> length yuyv"
      using "1.prems" True
      by (simp add: yuyv2rgba_loop.simps [of yuyv pixels i rgba] read_bytes_def split: if_splits)
    then have rdv: "read_bytes yuyv (2 * i) 4 = Inr ?grp"
      by (simp add: read_bytes_def)
    have wr: "4 * i + 8 \<le> length rgba"
      using "1.prems" True rdv
      by (simp add: yuyv2rgba_loop.simps [of yuyv pixels i rgba] write_bytes_def
          length_convert_group split: if_splits)
    then have wrv: "write_bytes rgba (4 * i) ?cg = Inr ?rgba'"
      by (simp add: write_bytes_def length_convert_group)
    have nowrap: "i + 2 < 2 ^ 32"
      using "1.prems" True rdv wrv
      by (simp add: yuyv2rgba_loop.simps [of yuyv pixels i rgba] split: if_splits)
    have rec: "yuyv2rgba_loop yuyv pixels (i + 2) ?rgba' = Inr out"
      using "1.prems" True rdv wrv nowrap
      by (simp add: yuyv2rgba_loop.simps [of yuyv pixels i rgba])
    have len': "length ?rgba' = length rgba"
      using wr by (simp add: length_convert_group)
    have IH: "length out = length ?rgba'
       \<and> take (4 * (i + 2)) out = take (4 * (i + 2)) ?rgba'
       \<and> (\<forall>m. i + 2 + 2 * m < pixels \<longrightarrow>
            2 * (i + 2 + 2 * m) + 4 \<le> length yuyv
            \<and> 4 * (i + 2 + 2 * m) + 8 \<le> length out
            \<and> take 8 (drop (4 * (i + 2 + 2 * m)) out)
                = convert_group (take 4 (drop (2 * (i + 2 + 2 * m)) yuyv)))"
      using "1.IH" [OF True rdv wrv nowrap rec] .
    have lo: "length out = length rgba" using IH len' by simp
    have pre8: "take (4 * i + 8) out = take (4 * i) rgba @ ?cg"
    proof -
      have "take (4 * i + 8) out = take (4 * i + 8) ?rgba'"
        using IH by (simp add: algebra_simps)
      also have "\<dots> = take (4 * i) rgba @ ?cg"
        using wr by (simp add: length_convert_group)
      finally show ?thesis .
    qed
    have pre: "take (4 * i) out = take (4 * i) rgba"
    proof -
      have "take (4 * i) out = take (4 * i) (take (4 * i + 8) out)" by simp
      also have "\<dots> = take (4 * i) rgba" unfolding pre8 using wr by simp
      finally show ?thesis .
    qed
    have here: "take 8 (drop (4 * i) out) = ?cg"
    proof -
      have "take 8 (drop (4 * i) out) = drop (4 * i) (take (4 * i + 8) out)"
        by (simp add: drop_take)
      also have "\<dots> = ?cg" unfolding pre8 using wr by simp
      finally show ?thesis .
    qed
    have grp: "2 * (i + 2 * m) + 4 \<le> length yuyv
            \<and> 4 * (i + 2 * m) + 8 \<le> length out
            \<and> take 8 (drop (4 * (i + 2 * m)) out)
                = convert_group (take 4 (drop (2 * (i + 2 * m)) yuyv))"
      if "i + 2 * m < pixels" for m
    proof (cases m)
      case 0
      then show ?thesis using rd wr lo here by simp
    next
      case (Suc m')
      then have "i + 2 + 2 * m' < pixels" using that by simp
      then have "2 * (i + 2 + 2 * m') + 4 \<le> length yuyv
            \<and> 4 * (i + 2 + 2 * m') + 8 \<le> length out
            \<and> take 8 (drop (4 * (i + 2 + 2 * m')) out)
                = convert_group (take 4 (drop (2 * (i + 2 + 2 * m')) yuyv))"
        using IH by blast
      moreover have "i + 2 + 2 * m' = i + 2 * m" using Suc by simp
      ultimately show ?thesis by (simp only:)
    qed
    show ?thesis using lo pre grp by blast
  qed
qed

lemma yuyv2rgba_loop_total:
  assumes "4 * ((pixels + 1) div 2) \<le> length yuyv"
    and "8 * ((pixels + 1) div 2) \<le> length rgba"
    and "pixels + 1 < 2 ^ 32"
    and "even i"
  shows "\<exists>out. yuyv2rgba_loop yuyv pixels i rgba = Inr out"
  using assms
proof (induction yuyv pixels i rgba rule: yuyv2rgba_loop.induct)
  case (1 yuyv pixels i rgba)
  show ?case
  proof (cases "i < pixels")
    case False
    then show ?thesis by (simp add: yuyv2rgba_loop.simps [of yuyv pixels i rgba])
  next
    case True
    let ?grp = "take 4 (drop (2 * i) yuyv)"
    let ?rgba' = "take (4 * i) rgba @ convert_group ?grp @ drop (4 * i + 8) rgba"
    have g: "i div 2 + 1 \<le> (pixels + 1) div 2"
      using True "1.prems"(4) by (elim evenE) auto
    have i2: "2 * (i div 2) = i" using "1.prems"(4) by simp
    have rd: "2 * i + 4 \<le> length yuyv"
    proof -
      have "2 * i + 4 = 4 * (i div 2 + 1)" using i2 by simp
      also have "\<dots> \<le> 4 * ((pixels + 1) div 2)" using g by simp
      finally show ?thesis using "1.prems"(1) by simp
    qed
    have wr: "4 * i + 8 \<le> length rgba"
    proof -
      have "4 * i + 8 = 8 * (i div 2 + 1)" using i2 by simp
      also have "\<dots> \<le> 8 * ((pixels + 1) div 2)" using g by simp
      finally show ?thesis using "1.prems"(2) by simp
    qed
    have rdv: "read_bytes yuyv (2 * i) 4 = Inr ?grp"
      using rd by (simp add: read_bytes_def)
    have wrv: "write_bytes rgba (4 * i) (convert_group ?grp) = Inr ?rgba'"
      using wr by (simp add: write_bytes_def length_convert_group)
    have nowrap: "i + 2 < 2 ^ 32" using True "1.prems"(3) by simp
    have len': "length ?rgba' = length rgba"
      using wr by (simp add: length_convert_group)
    have "\<exists>out. yuyv2rgba_loop yuyv pixels (i + 2) ?rgba' = Inr out"
      using "1.prems" len' by (intro "1.IH" [OF True rdv wrv nowrap]) simp_all
    then show ?thesis
      using True rdv wrv nowrap by (simp add: yuyv2rgba_loop.simps [of yuyv pixels i rgba])
  qed
qed

lemma nth_of_window:
  assumes "take n (drop p xs) = w" "p + n \<le> length xs" "j < n"
  shows "xs ! (p + j) = w ! j"
  using assms by (metis nth_take nth_drop add_leD1)

lemma convert_group_nth:
  "convert_group [y1, u, y2, v] ! 0 = yuv_pixel y1 u v ! 0"
  "convert_group [y1, u, y2, v] ! 1 = yuv_pixel y1 u v ! 1"
  "convert_group [y1, u, y2, v] ! 2 = yuv_pixel y1 u v ! 2"
  "convert_group [y1, u, y2, v] ! 3 = yuv_pixel y1 u v ! 3"
  "convert_group [y1, u, y2, v] ! 4 = yuv_pixel y2 u v ! 0"
  "convert_group [y1, u, y2, v] ! 5 = yuv_pixel y2 u v ! 1"
  "convert_group [y1, u, y2, v] ! 6 = yuv_pixel y2 u v ! 2"
  "convert_group [y1, u, y2, v] ! 7 = yuv_pixel y2 u v ! 3"
  by (simp_all add: convert_group_def nth_append length_yuv_pixel)

lemma take4_drop:
  assumes "p + 4 \<le> length xs"
  shows "take 4 (drop p xs) = [xs ! p, xs ! (p + 1), xs ! (p + 2), xs ! (p + 3)]"
proof -
  have "length (take 4 (drop p xs)) = 4" using assms by simp
  moreover have "take 4 (drop p xs) ! j = xs ! (p + j)" if "j < 4" for j
    using that assms by simp
  ultimately show ?thesis
    by (intro nth_equalityI) (auto simp: less_Suc_eq numeral_eq_Suc nth_Cons')
qed

lemma yuv_pixel_spec:
  "uint (yuv_pixel y u v ! 0) = spec_red (uint y) (uint u) (uint v)"
  "uint (yuv_pixel y u v ! 1) = spec_green (uint y) (uint u) (uint v)"
  "uint (yuv_pixel y u v ! 2) = spec_blue (uint y) (uint u) (uint v)"
  "yuv_pixel y u v ! 3 = 255"
  unfolding spec_red_def spec_green_def spec_blue_def by (rule yuv_pixel_values)+

text \<open>
  Claim C2.  Whenever the two buffers hold every group the loop touches (\<open>\<lceil>pixels / 2\<rceil>\<close>
  groups of 4 input and 8 output bytes) and the counter cannot wrap, \<^verbatim>\<open>yuyv2rgba\<close> returns, and
  for every group \<open>k\<close> the output bytes \<open>8k \<dots> 8k + 7\<close> are the two pixels the specification's
  formulas give for \<open>(Y1, U, V)\<close> and \<open>(Y2, U, V)\<close> of input bytes \<open>4k \<dots> 4k + 3\<close>: each colour
  channel is the clamped value in \<open>[0, 255]\<close> and both alpha bytes are 255.  The source's
  32-bit \<^verbatim>\<open>int\<close> arithmetic never overflows on byte inputs, which is why it agrees
  with the formulas over the integers.
\<close>

theorem yuyv2rgba_bt601:
  assumes "4 * ((unat pixels + 1) div 2) \<le> length yuyv"
    and "8 * ((unat pixels + 1) div 2) \<le> length rgba"
    and "unat pixels + 1 < 2 ^ 32"
    and "2 * k < unat pixels"
  shows "\<exists>out. yuyv2rgba yuyv rgba pixels = Inr out \<and> length out = length rgba
     \<and> uint (out ! (8 * k)) = spec_red (uint (yuyv ! (4 * k))) (uint (yuyv ! (4 * k + 1))) (uint (yuyv ! (4 * k + 3)))
     \<and> uint (out ! (8 * k + 1)) = spec_green (uint (yuyv ! (4 * k))) (uint (yuyv ! (4 * k + 1))) (uint (yuyv ! (4 * k + 3)))
     \<and> uint (out ! (8 * k + 2)) = spec_blue (uint (yuyv ! (4 * k))) (uint (yuyv ! (4 * k + 1))) (uint (yuyv ! (4 * k + 3)))
     \<and> out ! (8 * k + 3) = 255
     \<and> uint (out ! (8 * k + 4)) = spec_red (uint (yuyv ! (4 * k + 2))) (uint (yuyv ! (4 * k + 1))) (uint (yuyv ! (4 * k + 3)))
     \<and> uint (out ! (8 * k + 5)) = spec_green (uint (yuyv ! (4 * k + 2))) (uint (yuyv ! (4 * k + 1))) (uint (yuyv ! (4 * k + 3)))
     \<and> uint (out ! (8 * k + 6)) = spec_blue (uint (yuyv ! (4 * k + 2))) (uint (yuyv ! (4 * k + 1))) (uint (yuyv ! (4 * k + 3)))
     \<and> out ! (8 * k + 7) = 255"
proof -
  obtain out where run: "yuyv2rgba_loop yuyv (unat pixels) 0 rgba = Inr out"
    using yuyv2rgba_loop_total [of "unat pixels" yuyv rgba 0] assms(1-3) by auto
  have inv: "length out = length rgba"
    "\<And>m. 0 + 2 * m < unat pixels \<Longrightarrow>
            2 * (0 + 2 * m) + 4 \<le> length yuyv
            \<and> 4 * (0 + 2 * m) + 8 \<le> length out
            \<and> take 8 (drop (4 * (0 + 2 * m)) out)
                = convert_group (take 4 (drop (2 * (0 + 2 * m)) yuyv))"
    using yuyv2rgba_loop_inv [OF run] by blast+
  have b: "4 * k + 4 \<le> length yuyv" "8 * k + 8 \<le> length out"
    and w: "take 8 (drop (8 * k) out) = convert_group (take 4 (drop (4 * k) yuyv))"
    using inv(2) [of k] assms(4) by simp_all
  let ?grp = "[yuyv ! (4 * k), yuyv ! (4 * k + 1), yuyv ! (4 * k + 2), yuyv ! (4 * k + 3)]"
  have grp: "take 4 (drop (4 * k) yuyv) = ?grp"
    using b(1) by (rule take4_drop)
  have nth: "out ! (8 * k + j) = convert_group ?grp ! j" if "j < 8" for j
    using nth_of_window [OF w b(2) that] grp by simp
  let ?y1 = "uint (yuyv ! (4 * k))" and ?u = "uint (yuyv ! (4 * k + 1))"
    and ?y2 = "uint (yuyv ! (4 * k + 2))" and ?v = "uint (yuyv ! (4 * k + 3))"
  have "out ! (8 * k + 0) = convert_group ?grp ! 0" by (rule nth) simp
  then have c0: "uint (out ! (8 * k)) = spec_red ?y1 ?u ?v"
    by (simp only: add_0_right convert_group_nth yuv_pixel_spec)
  have "out ! (8 * k + 1) = convert_group ?grp ! 1" by (rule nth) simp
  then have c1: "uint (out ! (8 * k + 1)) = spec_green ?y1 ?u ?v"
    by (simp only: convert_group_nth yuv_pixel_spec)
  have "out ! (8 * k + 2) = convert_group ?grp ! 2" by (rule nth) simp
  then have c2: "uint (out ! (8 * k + 2)) = spec_blue ?y1 ?u ?v"
    by (simp only: convert_group_nth yuv_pixel_spec)
  have "out ! (8 * k + 3) = convert_group ?grp ! 3" by (rule nth) simp
  then have c3: "out ! (8 * k + 3) = 255"
    by (simp only: convert_group_nth yuv_pixel_spec)
  have "out ! (8 * k + 4) = convert_group ?grp ! 4" by (rule nth) simp
  then have c4: "uint (out ! (8 * k + 4)) = spec_red ?y2 ?u ?v"
    by (simp only: convert_group_nth yuv_pixel_spec)
  have "out ! (8 * k + 5) = convert_group ?grp ! 5" by (rule nth) simp
  then have c5: "uint (out ! (8 * k + 5)) = spec_green ?y2 ?u ?v"
    by (simp only: convert_group_nth yuv_pixel_spec)
  have "out ! (8 * k + 6) = convert_group ?grp ! 6" by (rule nth) simp
  then have c6: "uint (out ! (8 * k + 6)) = spec_blue ?y2 ?u ?v"
    by (simp only: convert_group_nth yuv_pixel_spec)
  have "out ! (8 * k + 7) = convert_group ?grp ! 7" by (rule nth) simp
  then have c7: "out ! (8 * k + 7) = 255"
    by (simp only: convert_group_nth yuv_pixel_spec)
  have r: "yuyv2rgba yuyv rgba pixels = Inr out"
    using run by (simp only: yuyv2rgba_def)
  show ?thesis
    using r inv(1) c0 c1 c2 c3 c4 c5 c6 c7 by blast
qed

text \<open>The theorem at the adversarial group \<open>Y1 = 255, U = 0, Y2 = 16, V = 255\<close>.\<close>

theorem yuyv2rgba_bt601_witness:
  "4 * ((unat (2 :: u32) + 1) div 2) \<le> length [255, 0, 16, 255 :: u8]
   \<and> 8 * ((unat (2 :: u32) + 1) div 2) \<le> length (replicate 8 (0 :: u8))
   \<and> unat (2 :: u32) + 1 < 2 ^ 32 \<and> 2 * 0 < unat (2 :: u32)
   \<and> (\<exists>out. yuyv2rgba [255, 0, 16, 255] (replicate 8 0) 2 = Inr out \<and> length out = 8
         \<and> uint (out ! 0) = 255 \<and> uint (out ! 1) = 225 \<and> uint (out ! 2) = 20 \<and> out ! 3 = 255
         \<and> uint (out ! 4) = 203 \<and> uint (out ! 5) = 0 \<and> uint (out ! 6) = 0 \<and> out ! 7 = 255)"
proof -
  have h1: "4 * ((unat (2 :: u32) + 1) div 2) \<le> length [255, 0, 16, 255 :: u8]" by simp
  have h2: "8 * ((unat (2 :: u32) + 1) div 2) \<le> length (replicate 8 (0 :: u8))" by simp
  have h3: "unat (2 :: u32) + 1 < 2 ^ 32" by simp
  have h4: "2 * 0 < unat (2 :: u32)" by simp
  obtain out where r: "yuyv2rgba [255, 0, 16, 255] (replicate 8 0) 2 = Inr out"
    and l: "length out = length (replicate 8 (0 :: u8))"
    and c0: "uint (out ! (8 * 0)) = spec_red (uint ([255, 0, 16, 255 :: u8] ! (4 * 0)))
               (uint ([255, 0, 16, 255 :: u8] ! (4 * 0 + 1))) (uint ([255, 0, 16, 255 :: u8] ! (4 * 0 + 3)))"
    and c1: "uint (out ! (8 * 0 + 1)) = spec_green (uint ([255, 0, 16, 255 :: u8] ! (4 * 0)))
               (uint ([255, 0, 16, 255 :: u8] ! (4 * 0 + 1))) (uint ([255, 0, 16, 255 :: u8] ! (4 * 0 + 3)))"
    and c2: "uint (out ! (8 * 0 + 2)) = spec_blue (uint ([255, 0, 16, 255 :: u8] ! (4 * 0)))
               (uint ([255, 0, 16, 255 :: u8] ! (4 * 0 + 1))) (uint ([255, 0, 16, 255 :: u8] ! (4 * 0 + 3)))"
    and c3: "out ! (8 * 0 + 3) = 255"
    and c4: "uint (out ! (8 * 0 + 4)) = spec_red (uint ([255, 0, 16, 255 :: u8] ! (4 * 0 + 2)))
               (uint ([255, 0, 16, 255 :: u8] ! (4 * 0 + 1))) (uint ([255, 0, 16, 255 :: u8] ! (4 * 0 + 3)))"
    and c5: "uint (out ! (8 * 0 + 5)) = spec_green (uint ([255, 0, 16, 255 :: u8] ! (4 * 0 + 2)))
               (uint ([255, 0, 16, 255 :: u8] ! (4 * 0 + 1))) (uint ([255, 0, 16, 255 :: u8] ! (4 * 0 + 3)))"
    and c6: "uint (out ! (8 * 0 + 6)) = spec_blue (uint ([255, 0, 16, 255 :: u8] ! (4 * 0 + 2)))
               (uint ([255, 0, 16, 255 :: u8] ! (4 * 0 + 1))) (uint ([255, 0, 16, 255 :: u8] ! (4 * 0 + 3)))"
    and c7: "out ! (8 * 0 + 7) = 255"
    using yuyv2rgba_bt601 [OF h1 h2 h3 h4] by blast
  have v: "length out = 8" "uint (out ! 0) = 255" "uint (out ! 1) = 225" "uint (out ! 2) = 20"
    "out ! 3 = 255" "uint (out ! 4) = 203" "uint (out ! 5) = 0" "uint (out ! 6) = 0" "out ! 7 = 255"
    using l c0 c1 c2 c3 c4 c5 c6 c7
    by (simp_all add: spec_red_def spec_green_def spec_blue_def numeral_2_eq_2 [symmetric])
  show ?thesis
    using h1 h2 h3 h4 r v by blast
qed

lemma yuv_pixel_mid_grey: "yuv_pixel 128 128 128 = [130, 130, 130, 255]"
  by (simp add: yuv_pixel_def clamp_u8_def std_max_def std_min_def Let_def word_sless_alt)

lemma yuyv2rgba_one_group:
  "yuyv2rgba [y1, u, y2, v] [a, b, c, d, e, f, g, h] 2
   = Inr (yuv_pixel y1 u v @ yuv_pixel y2 u v)"
proof -
  have "yuyv2rgba_loop [y1, u, y2, v] 2 (Suc (Suc 0)) out = Inr out" for out
    by (simp add: yuyv2rgba_loop.simps [of _ 2 "Suc (Suc 0)"])
  then show ?thesis
    by (simp add: yuyv2rgba_def yuyv2rgba_loop.simps [of _ 2 0] read_bytes_def write_bytes_def
        convert_group_def length_yuv_pixel)
qed

text \<open>Claim C3 as stated fails: the group \<open>128, 128, 128, 128\<close> is not converted to
  \<open>(112, 115, 112, 255)\<close> twice.\<close>

theorem yuyv2rgba_mid_grey_counterexample:
  "yuyv2rgba [128, 128, 128, 128] (replicate 8 0) 2
   \<noteq> Inr [112, 115, 112, 255, 112, 115, 112, 255]"
proof -
  have "replicate 8 (0 :: u8) = [0, 0, 0, 0, 0, 0, 0, 0]" by (simp add: numeral_eq_Suc)
  then show ?thesis by (simp add: yuyv2rgba_one_group yuv_pixel_mid_grey)
qed

text \<open>
  Claim C3, as amended.  For the input group \<open>Y1 = 128, U = 128, Y2 = 128, V = 128\<close> both output
  pixels are \<open>(130, 130, 130, 255)\<close>, whatever the output buffer held before:
  \<open>c = 112\<close>, \<open>d = e = 0\<close>, and \<open>(298 * 112 + 128) >> 8 = 33504 >> 8 = 130\<close>.
\<close>

theorem yuyv2rgba_mid_grey:
  "yuyv2rgba [128, 128, 128, 128] [a, b, c, d, e, f, g, h] 2
   = Inr [130, 130, 130, 255, 130, 130, 130, 255]"
  by (simp add: yuyv2rgba_one_group yuv_pixel_mid_grey)

section \<open>The capture variant (claims C7, C8 and C10)\<close>

lemma trace_sys_read: "trace (snd (sys_read os fd n)) = trace os @ [SysRead fd n]"
  by (simp add: sys_read_def log_call_def split: list.splits read_result.splits)

lemma grabFrame_closed:
  "fd' g < 0 \<Longrightarrow> WebcamGrabber_grabFrame g os out_frame = Inr (False, out_frame, g, os)"
  by (simp add: WebcamGrabber_grabFrame_def)

lemma grabFrame_mismatch:
  assumes "0 \<le> fd' g"
    and "fst (fst (sys_read os (fd' g) (unat (width' g * height' g * 2))))
         \<noteq> int (unat (width' g * height' g * 2))"
  shows "WebcamGrabber_grabFrame g os out_frame =
         Inr (False, out_frame, g, snd (sys_read os (fd' g) (unat (width' g * height' g * 2))))"
  using assms by (simp add: WebcamGrabber_grabFrame_def Let_def)

lemma grabFrame_result:
  assumes "WebcamGrabber_grabFrame g os out_frame = Inr (ok, fr, g', os')"
  shows "width' g' = width' g \<and> height' g' = height' g \<and> fd' g' = fd' g
         \<and> (\<not> ok \<longrightarrow> fr = out_frame \<and> g' = g)
         \<and> (ok \<longrightarrow> width fr = width' g \<and> height fr = height' g \<and> stride fr = width' g * 4
                  \<and> data fr = buffer' g')
         \<and> (0 \<le> fd' g \<longrightarrow> os' = snd (sys_read os (fd' g) (unat (width' g * height' g * 2))))
         \<and> (fd' g < 0 \<longrightarrow> os' = os \<and> \<not> ok)"
  using assms
  by (auto simp: WebcamGrabber_grabFrame_def Let_def split: if_splits sum.splits)

text \<open>The one \<^verbatim>\<open>read\<close> of an acquisition call, with the request size as the source computes
  it: the \<^verbatim>\<open>uint32_t\<close> product \<^verbatim>\<open>width_ * height_ * 2\<close>.\<close>

lemma grabFrame_single_read:
  assumes "0 \<le> fd' g"
  shows "(\<forall>ok fr g' os'. WebcamGrabber_grabFrame g os out_frame = Inr (ok, fr, g', os') \<longrightarrow>
            os' = snd (sys_read os (fd' g) (unat (width' g * height' g * 2)))
            \<and> trace os' = trace os @ [SysRead (fd' g) (unat (width' g * height' g * 2))])
       \<and> (fst (fst (sys_read os (fd' g) (unat (width' g * height' g * 2))))
              \<noteq> int (unat (width' g * height' g * 2)) \<longrightarrow>
            WebcamGrabber_grabFrame g os out_frame =
              Inr (False, out_frame, g, snd (sys_read os (fd' g) (unat (width' g * height' g * 2)))))
       \<and> (unat (width' g) * unat (height' g) * 2 < 2 ^ 32 \<longrightarrow>
            unat (width' g * height' g * 2) = unat (width' g) * unat (height' g) * 2)"
proof (intro conjI allI impI)
  fix ok fr g' os'
  assume r: "WebcamGrabber_grabFrame g os out_frame = Inr (ok, fr, g', os')"
  show o: "os' = snd (sys_read os (fd' g) (unat (width' g * height' g * 2)))"
    using grabFrame_result [OF r] assms by simp
  show "trace os' = trace os @ [SysRead (fd' g) (unat (width' g * height' g * 2))]"
    unfolding o by (rule trace_sys_read)
next
  assume "fst (fst (sys_read os (fd' g) (unat (width' g * height' g * 2))))
              \<noteq> int (unat (width' g * height' g * 2))"
  then show "WebcamGrabber_grabFrame g os out_frame =
              Inr (False, out_frame, g, snd (sys_read os (fd' g) (unat (width' g * height' g * 2))))"
    using assms by (rule grabFrame_mismatch [rotated])
next
  assume b: "unat (width' g) * unat (height' g) * 2 < 2 ^ 32"
  define a where "a = unat (width' g) * unat (height' g)"
  have "a * 2 < 2 ^ 32" using b by (simp only: a_def)
  then have "a < 2 ^ 32" by simp
  then have "unat (width' g) * unat (height' g) < 2 ^ 32" by (simp only: a_def)
  then have p: "unat (width' g * height' g) = unat (width' g) * unat (height' g)"
    by (simp add: unat_mult_lem [THEN iffD1])
  have "unat (width' g * height' g) * unat (2 :: u32) < 2 ^ LENGTH(32)"
    using b p by simp
  then have "unat (width' g * height' g * 2) = unat (width' g * height' g) * unat (2 :: u32)"
    by (simp only: unat_mult_lem [THEN iffD1])
  then show "unat (width' g * height' g * 2) = unat (width' g) * unat (height' g) * 2"
    using p by simp
qed

lemma video_os_short_read:
  "sys_read video_os 3 4 =
     ((3, [1, 2, 3]),
      video_os\<lparr>pending_reads := [ReadFails, ReadData [128, 128, 128, 128]],
               trace := [SysRead 3 4]\<rparr>)"
  by (simp add: sys_read_def video_os_def log_call_def)

lemma unat_times_const:
  fixes a :: u32
  assumes "unat a * unat (k :: u32) < 2 ^ 32"
  shows "unat (a * k) = unat a * unat k"
  using assms by (simp add: unat_mult_lem [THEN iffD1])

text \<open>
  Claim C7, as amended.  With the device open and \<open>W * H * 2 < 2 ^ 32\<close>, an acquisition call
  makes exactly one \<^verbatim>\<open>read\<close>, asking for exactly \<open>W * H * 2\<close> bytes: whatever the call returns, the
  device has seen that one request and nothing else.  Whenever the count \<^verbatim>\<open>read\<close> returns
  differs from \<open>W * H * 2\<close> (a short read, end of input, or \<open>-1\<close>), the call returns \<^verbatim>\<open>false\<close> and
  leaves the frame and the whole grabber as they were: nothing is retried and no partial data
  is kept for a later call.
\<close>

theorem webcam_single_read:
  assumes "0 \<le> fd' g"
    and "unat (width' g) * unat (height' g) * 2 < 2 ^ 32"
  shows "(\<forall>ok fr g' os'. WebcamGrabber_grabFrame g os out_frame = Inr (ok, fr, g', os') \<longrightarrow>
            os' = snd (sys_read os (fd' g) (unat (width' g) * unat (height' g) * 2))
            \<and> trace os' = trace os @ [SysRead (fd' g) (unat (width' g) * unat (height' g) * 2)])
       \<and> (fst (fst (sys_read os (fd' g) (unat (width' g) * unat (height' g) * 2)))
              \<noteq> int (unat (width' g) * unat (height' g) * 2) \<longrightarrow>
            WebcamGrabber_grabFrame g os out_frame =
              Inr (False, out_frame, g,
                   snd (sys_read os (fd' g) (unat (width' g) * unat (height' g) * 2))))"
proof -
  note u = grabFrame_single_read [OF assms(1), of os out_frame]
  have e: "unat (width' g * height' g * 2) = unat (width' g) * unat (height' g) * 2"
    using u assms(2) by blast
  show ?thesis using u unfolding e by blast
qed

text \<open>The theorem on the open \<open>2 \<times> 1\<close> grabber when the device delivers 3 of the 4 bytes.\<close>

theorem webcam_single_read_witness:
  "0 \<le> fd' open_cam
   \<and> unat (width' open_cam) * unat (height' open_cam) * 2 < 2 ^ 32
   \<and> fst (fst (sys_read video_os (fd' open_cam) (unat (width' open_cam) * unat (height' open_cam) * 2)))
        \<noteq> int (unat (width' open_cam) * unat (height' open_cam) * 2)
   \<and> unat (width' open_cam) * unat (height' open_cam) * 2 = 4
   \<and> WebcamGrabber_grabFrame open_cam video_os empty_frame =
        Inr (False, empty_frame, open_cam,
             video_os\<lparr>pending_reads := [ReadFails, ReadData [128, 128, 128, 128]],
                      trace := [SysRead 3 4]\<rparr>)"
proof -
  have h: "0 \<le> fd' open_cam" by (simp add: open_cam_def WebcamGrabber_new_def)
  have n: "unat (width' open_cam) * unat (height' open_cam) * 2 = 4" "fd' open_cam = 3"
    by (simp_all add: open_cam_def WebcamGrabber_new_def)
  have b: "unat (width' open_cam) * unat (height' open_cam) * 2 < 2 ^ 32"
    unfolding n by simp
  have m: "fst (fst (sys_read video_os (fd' open_cam)
                 (unat (width' open_cam) * unat (height' open_cam) * 2)))
        \<noteq> int (unat (width' open_cam) * unat (height' open_cam) * 2)"
    unfolding n by (simp add: video_os_short_read)
  have r: "WebcamGrabber_grabFrame open_cam video_os empty_frame =
        Inr (False, empty_frame, open_cam,
             snd (sys_read video_os (fd' open_cam)
                    (unat (width' open_cam) * unat (height' open_cam) * 2)))"
    using webcam_single_read [OF h b, of video_os empty_frame] m by blast
  have s: "snd (sys_read video_os (fd' open_cam)
                    (unat (width' open_cam) * unat (height' open_cam) * 2))
           = video_os\<lparr>pending_reads := [ReadFails, ReadData [128, 128, 128, 128]],
                      trace := [SysRead 3 4]\<rparr>"
    unfolding n by (simp add: video_os_short_read)
  show ?thesis using h b m n(1) r [unfolded s] by blast
qed

text \<open>Claim C7 as stated fails once \<open>W * H * 2\<close> does not fit in 32 bits.  For an open
  \<open>65536 \<times> 65536\<close> grabber the request size wraps to 0: the one \<^verbatim>\<open>read\<close> asks for 0 bytes, returns
  0, and the call returns \<^verbatim>\<open>true\<close> with an empty frame, although 0 bytes read differs from
  \<open>W * H * 2 = 8589934592\<close>.\<close>

theorem webcam_read_size_counterexample:
  "0 \<le> fd' tall_cam
   \<and> unat (width' tall_cam) * unat (height' tall_cam) * 2 = 8589934592
   \<and> WebcamGrabber_grabFrame tall_cam video_os empty_frame =
       Inr (True,
            \<lparr>width = 65536, height = 65536, stride = 262144, data = []\<rparr>,
            tall_cam\<lparr>frame_count' := 1\<rparr>,
            video_os\<lparr>pending_reads := [ReadFails, ReadData [128, 128, 128, 128]],
                     trace := [SysRead 3 0]\<rparr>)"
proof -
  have l: "yuyv2rgba [] [] 4294967296 = Inr []"
    by (simp add: yuyv2rgba_def yuyv2rgba_loop.simps [of _ 0 0])
  have r: "sys_read video_os 3 0 =
     ((0, []),
      video_os\<lparr>pending_reads := [ReadFails, ReadData [128, 128, 128, 128]],
               trace := [SysRead 3 0]\<rparr>)"
    by (simp add: sys_read_def video_os_def log_call_def)
  show ?thesis
    by (simp add: WebcamGrabber_grabFrame_def tall_cam_def WebcamGrabber_new_def Let_def r l
        empty_frame_def)
qed

text \<open>
  Claim C10.  Whenever the device is not open or the count \<^verbatim>\<open>read\<close> returns differs from the
  requested size, \<^verbatim>\<open>WebcamGrabber::grabFrame\<close> returns \<^verbatim>\<open>false\<close> and the caller's frame and the
  grabber are unchanged; and any call that returns \<^verbatim>\<open>false\<close> leaves the caller's frame exactly as
  it was passed in, so width, height, stride and data are written only on the path that returns
  \<^verbatim>\<open>true\<close>.
\<close>

theorem webcam_failure_keeps_frame:
  "(fd' g < 0 \<or> fst (fst (sys_read os (fd' g) (unat (width' g * height' g * 2))))
                    \<noteq> int (unat (width' g * height' g * 2)) \<longrightarrow>
      (\<exists>os'. WebcamGrabber_grabFrame g os out_frame = Inr (False, out_frame, g, os')))
   \<and> (\<forall>ok fr g' os'. WebcamGrabber_grabFrame g os out_frame = Inr (ok, fr, g', os') \<and> \<not> ok \<longrightarrow>
         fr = out_frame)"
proof (intro conjI allI impI)
  assume "fd' g < 0 \<or> fst (fst (sys_read os (fd' g) (unat (width' g * height' g * 2))))
                    \<noteq> int (unat (width' g * height' g * 2))"
  then show "\<exists>os'. WebcamGrabber_grabFrame g os out_frame = Inr (False, out_frame, g, os')"
    using grabFrame_closed [of g os out_frame] grabFrame_mismatch [of g os out_frame]
    by (cases "fd' g < 0") auto
next
  fix ok fr g' os'
  assume "WebcamGrabber_grabFrame g os out_frame = Inr (ok, fr, g', os') \<and> \<not> ok"
  then show "fr = out_frame" using grabFrame_result [of g os out_frame ok fr g' os'] by blast
qed

text \<open>The theorem on a grabber that was never initialised (\<^verbatim>\<open>fd_ = -1\<close>) and a frame that
  already holds data.\<close>

theorem webcam_failure_keeps_frame_witness:
  "fd' (WebcamGrabber_new 2 1 ''/dev/video0'') < 0
   \<and> WebcamGrabber_grabFrame (WebcamGrabber_new 2 1 ''/dev/video0'') video_os
        \<lparr>width = 7, height = 7, stride = 28, data = [9]\<rparr>
      = Inr (False, \<lparr>width = 7, height = 7, stride = 28, data = [9]\<rparr>,
             WebcamGrabber_new 2 1 ''/dev/video0'', video_os)"
proof -
  let ?g = "WebcamGrabber_new 2 1 ''/dev/video0''"
  let ?f = "\<lparr>width = 7, height = 7, stride = 28, data = [9]\<rparr>"
  have h: "fd' ?g < 0" by (simp add: WebcamGrabber_new_def)
  obtain os' where r: "WebcamGrabber_grabFrame ?g video_os ?f = Inr (False, ?f, ?g, os')"
    using webcam_failure_keeps_frame [of ?g video_os ?f] h by blast
  have "os' = video_os" using grabFrame_result [OF r] h by simp
  then show ?thesis using h r by simp
qed

lemma grab_frames_dims:
  "fr \<in> set (grab_frames fs g os) \<Longrightarrow>
     width fr = width' g \<and> height fr = height' g \<and> stride fr = width' g * 4"
proof (induction fs arbitrary: g os)
  case Nil
  then show ?case by simp
next
  case (Cons f fs)
  show ?case
  proof (cases "WebcamGrabber_grabFrame g os f")
    case (Inl e)
    then show ?thesis using Cons.prems by simp
  next
    case (Inr r)
    obtain ok fr' g' os' where r: "r = (ok, fr', g', os')" by (cases r) auto
    have res: "WebcamGrabber_grabFrame g os f = Inr (ok, fr', g', os')" using Inr r by simp
    note facts = grabFrame_result [OF res]
    have "fr \<in> set ((if ok then [fr'] else []) @ grab_frames fs g' os')"
      using Cons.prems res by simp
    then consider (here) "ok" "fr = fr'" | (later) "fr \<in> set (grab_frames fs g' os')"
      by (auto split: if_splits)
    then show ?thesis
    proof cases
      case here
      then show ?thesis using facts by simp
    next
      case later
      then show ?thesis using Cons.IH [of g' os'] facts by simp
    qed
  qed
qed

text \<open>Format negotiation with the sizes as the source computes them: the buffer length is
  the \<^verbatim>\<open>uint32_t\<close> product \<^verbatim>\<open>width_ * height_ * 4\<close> and the stride the \<^verbatim>\<open>uint32_t\<close> product
  \<^verbatim>\<open>width_ * 4\<close>.\<close>

lemma initV4L2_adopts:
  assumes "0 \<le> open_result os (device' g)"
    and "querycap os = Some caps"
    and "caps AND V4L2_CAP_VIDEO_CAPTURE \<noteq> 0"
    and "set_format os (width' g) (height' g) = Some (w2, h2)"
  shows "\<exists>g1 os1. initV4L2 g os = (True, g1, os1)
      \<and> width' g1 = w2 \<and> height' g1 = h2 \<and> fd' g1 = open_result os (device' g)
      \<and> length (buffer' g1) = unat (w2 * h2 * 4)
      \<and> (unat w2 * unat h2 * 4 < 2 ^ 32 \<longrightarrow> length (buffer' g1) = unat w2 * unat h2 * 4)
      \<and> (\<forall>fs os2. \<forall>fr \<in> set (grab_frames fs g1 os2).
            width fr = w2 \<and> height fr = h2 \<and> stride fr = w2 * 4)"
proof -
  obtain g1 os1 where i: "initV4L2 g os = (True, g1, os1)"
    and w: "width' g1 = w2" and h: "height' g1 = h2"
    and f: "fd' g1 = open_result os (device' g)"
    and l: "length (buffer' g1) = unat (w2 * h2 * 4)"
    using assms by (auto simp: initV4L2_def Let_def resize_def)
  have m: "length (buffer' g1) = unat w2 * unat h2 * 4" if b: "unat w2 * unat h2 * 4 < 2 ^ 32"
  proof -
    define a where "a = unat w2 * unat h2"
    have "a * 4 < 2 ^ 32" using b by (simp only: a_def)
    then have "a < 2 ^ 32" by simp
    then have p: "unat (w2 * h2) = unat w2 * unat h2"
      by (simp add: a_def unat_mult_lem [THEN iffD1])
    have "unat (w2 * h2) * unat (4 :: u32) < 2 ^ LENGTH(32)" using b p by simp
    then have "unat (w2 * h2 * 4) = unat (w2 * h2) * unat (4 :: u32)"
      by (simp only: unat_mult_lem [THEN iffD1])
    then show ?thesis using l p by simp
  qed
  have d: "\<forall>fs os2. \<forall>fr \<in> set (grab_frames fs g1 os2).
            width fr = w2 \<and> height fr = h2 \<and> stride fr = w2 * 4"
    using grab_frames_dims [of _ _ g1] w h by blast
  show ?thesis using i w h f l m d by blast
qed

lemma zeros8: "replicate 8 (0 :: u8) = [0, 0, 0, 0, 0, 0, 0, 0]"
  by (simp add: numeral_eq_Suc)

lemma init_hd_cam:
  "initV4L2 hd_cam video_os =
     (True, hd_cam\<lparr>width' := 2, height' := 1, fd' := 3, buffer' := replicate 8 0\<rparr>,
      video_os\<lparr>trace := [SysOpen ''/dev/video0'', SysQueryCap 3, SysSetFormat 3 1920 1080]\<rparr>)"
  by (simp add: initV4L2_def hd_cam_def WebcamGrabber_new_def video_os_def log_call_def
      V4L2_CAP_VIDEO_CAPTURE_def resize_def Let_def)

lemma grab_hd_cam:
  "grab_frames [empty_frame, empty_frame, empty_frame]
     (hd_cam\<lparr>width' := 2, height' := 1, fd' := 3, buffer' := replicate 8 0\<rparr>)
     (video_os\<lparr>trace := [SysOpen ''/dev/video0'', SysQueryCap 3, SysSetFormat 3 1920 1080]\<rparr>)
   = [\<lparr>width = 2, height = 1, stride = 8, data = [130, 130, 130, 255, 130, 130, 130, 255]\<rparr>]"
  by (simp add: WebcamGrabber_grabFrame_def sys_read_def video_os_def log_call_def hd_cam_def
      WebcamGrabber_new_def Let_def empty_frame_def zeros8 yuyv2rgba_one_group yuv_pixel_mid_grey)

text \<open>
  Claim C8, as amended.  If the device opens, reports the capture capability and answers the
  format request with a resolution \<open>w2 \<times> h2\<close> (the requested one or any other) for which
  \<open>w2 * h2 * 4 < 2 ^ 32\<close> and \<open>w2 * 4 < 2 ^ 32\<close>, then \<^verbatim>\<open>initV4L2\<close> returns \<^verbatim>\<open>true\<close>, the stored
  width and height are \<open>w2\<close> and \<open>h2\<close>, the conversion buffer has \<open>w2 * h2 * 4\<close> bytes, and every
  frame grabbed afterwards, over any sequence of calls, reports width \<open>w2\<close>, height \<open>h2\<close> and
  stride \<open>w2 * 4\<close>.
\<close>

theorem v4l2_adopts_device_resolution:
  assumes "0 \<le> open_result os (device' g)"
    and "querycap os = Some caps"
    and "caps AND V4L2_CAP_VIDEO_CAPTURE \<noteq> 0"
    and "set_format os (width' g) (height' g) = Some (w2, h2)"
    and "unat w2 * unat h2 * 4 < 2 ^ 32"
    and "unat w2 * 4 < 2 ^ 32"
  shows "\<exists>g1 os1. initV4L2 g os = (True, g1, os1)
      \<and> width' g1 = w2 \<and> height' g1 = h2 \<and> fd' g1 = open_result os (device' g)
      \<and> length (buffer' g1) = unat w2 * unat h2 * 4
      \<and> (\<forall>fs os2. \<forall>fr \<in> set (grab_frames fs g1 os2).
            width fr = w2 \<and> height fr = h2 \<and> unat (stride fr) = unat w2 * 4)"
proof -
  obtain g1 os1 where i: "initV4L2 g os = (True, g1, os1)"
    and w: "width' g1 = w2" and h: "height' g1 = h2"
    and f: "fd' g1 = open_result os (device' g)"
    and l: "unat w2 * unat h2 * 4 < 2 ^ 32 \<longrightarrow> length (buffer' g1) = unat w2 * unat h2 * 4"
    and d: "\<forall>fs os2. \<forall>fr \<in> set (grab_frames fs g1 os2).
            width fr = w2 \<and> height fr = h2 \<and> stride fr = w2 * 4"
    using initV4L2_adopts [OF assms(1-4)] by blast
  have s: "unat (w2 * 4) = unat w2 * 4"
    using unat_times_const [of w2 4] assms(6) by simp
  have d': "\<forall>fs os2. \<forall>fr \<in> set (grab_frames fs g1 os2).
            width fr = w2 \<and> height fr = h2 \<and> unat (stride fr) = unat w2 * 4"
    using d s by auto
  show ?thesis using i w h f l assms(5) d' by blast
qed

text \<open>The theorem for a \<open>1920 \<times> 1080\<close> request that the device adjusts to \<open>2 \<times> 1\<close>: of three
  calls the third returns a frame, and it is \<open>2 \<times> 1\<close> with stride 8.\<close>

theorem v4l2_adopts_device_resolution_witness:
  "0 \<le> open_result video_os (device' hd_cam)
   \<and> querycap video_os = Some 1
   \<and> (1 :: u32) AND V4L2_CAP_VIDEO_CAPTURE \<noteq> 0
   \<and> set_format video_os (width' hd_cam) (height' hd_cam) = Some (2, 1)
   \<and> (2, 1) \<noteq> (width' hd_cam, height' hd_cam)
   \<and> unat (2 :: u32) * unat (1 :: u32) * 4 < 2 ^ 32 \<and> unat (2 :: u32) * 4 < 2 ^ 32
   \<and> (\<exists>g1 os1. initV4L2 hd_cam video_os = (True, g1, os1)
         \<and> width' g1 = 2 \<and> height' g1 = 1 \<and> length (buffer' g1) = 8
         \<and> grab_frames [empty_frame, empty_frame, empty_frame] g1 os1
             = [\<lparr>width = 2, height = 1, stride = 8,
                  data = [130, 130, 130, 255, 130, 130, 130, 255]\<rparr>])"
proof -
  have h1: "0 \<le> open_result video_os (device' hd_cam)" by (simp add: video_os_def)
  have h2: "querycap video_os = Some 1" by (simp add: video_os_def)
  have h3: "(1 :: u32) AND V4L2_CAP_VIDEO_CAPTURE \<noteq> 0" by (simp add: V4L2_CAP_VIDEO_CAPTURE_def)
  have h4: "set_format video_os (width' hd_cam) (height' hd_cam) = Some (2, 1)"
    by (simp add: video_os_def)
  have h5: "(2, 1) \<noteq> (width' hd_cam, height' hd_cam)"
    by (simp add: hd_cam_def WebcamGrabber_new_def)
  have h6: "unat (2 :: u32) * unat (1 :: u32) * 4 < 2 ^ 32" by simp
  have h7: "unat (2 :: u32) * 4 < 2 ^ 32" by simp
  obtain g1 os1 where i: "initV4L2 hd_cam video_os = (True, g1, os1)"
    and w: "width' g1 = 2" and h: "height' g1 = 1"
    and l: "length (buffer' g1) = unat (2 :: u32) * unat (1 :: u32) * 4"
    using v4l2_adopts_device_resolution [OF h1 h2 h3 h4 h6 h7] by blast
  have l8: "length (buffer' g1) = 8" using l by simp
  have g: "grab_frames [empty_frame, empty_frame, empty_frame] g1 os1
             = [\<lparr>width = 2, height = 1, stride = 8,
                  data = [130, 130, 130, 255, 130, 130, 130, 255]\<rparr>]"
    using i grab_hd_cam by (simp add: init_hd_cam)
  show ?thesis using h1 h2 h3 h4 h5 h6 h7 i w h l8 g by blast
qed

text \<open>Claim C8 as stated fails once \<open>w2 * h2 * 4\<close> does not fit in 32 bits.  When the device
  answers \<open>65536 \<times> 16384\<close>, \<^verbatim>\<open>initV4L2\<close> returns \<^verbatim>\<open>true\<close> and adopts that resolution, but the
  conversion buffer is resized to 0 bytes, not to \<open>65536 * 16384 * 4 = 4294967296\<close>.\<close>

theorem v4l2_buffer_size_counterexample:
  "0 \<le> open_result wide_os (device' hd_cam)
   \<and> querycap wide_os = Some 1
   \<and> set_format wide_os (width' hd_cam) (height' hd_cam) = Some (65536, 16384)
   \<and> fst (initV4L2 hd_cam wide_os)
   \<and> width' (fst (snd (initV4L2 hd_cam wide_os))) = 65536
   \<and> height' (fst (snd (initV4L2 hd_cam wide_os))) = 16384
   \<and> length (buffer' (fst (snd (initV4L2 hd_cam wide_os)))) = 0
   \<and> unat (65536 :: u32) * unat (16384 :: u32) * 4 = 4294967296"
  by (simp add: initV4L2_def hd_cam_def WebcamGrabber_new_def wide_os_def video_os_def
      log_call_def V4L2_CAP_VIDEO_CAPTURE_def resize_def Let_def)

section \<open>Loading the shader (claim C6)\<close>

lemma length_bytes_of_words: "length (bytes_of_words ws) = 4 * length ws"
  by (induction ws) (simp_all add: bytes_of_words_def bytes_of_word_def)

lemma readShaderFile_missing:
  "fs filename = None \<Longrightarrow>
     readShaderFile fs filename = Inl (RuntimeError (''Failed to open shader file: '' @ filename))"
  by (simp add: readShaderFile_def)

lemma readShaderFile_misaligned:
  "fs filename = Some contents \<Longrightarrow> length contents mod 4 \<noteq> 0 \<Longrightarrow>
     readShaderFile fs filename = Inl OutOfBounds"
proof -
  assume a: "fs filename = Some contents" and m: "length contents mod 4 \<noteq> 0"
  have "4 * (length contents div 4) < length contents"
    using m by (metis mult_div_mod_eq less_add_same_cancel1 neq0_conv)
  then show ?thesis
    using a by (simp add: readShaderFile_def Let_def write_bytes_def length_bytes_of_words)
qed

lemma readShaderFile_aligned:
  "fs filename = Some contents \<Longrightarrow> length contents mod 4 = 0 \<Longrightarrow>
     readShaderFile fs filename = Inr (words_of_bytes contents)"
proof -
  assume a: "fs filename = Some contents" and m: "length contents mod 4 = 0"
  have "4 * (length contents div 4) = length contents"
    using m by (metis mult_div_mod_eq add.right_neutral)
  then show ?thesis
    using a by (simp add: readShaderFile_def Let_def write_bytes_def length_bytes_of_words)
qed

lemma byte_roundtrip: "bytes_of_word (word_of_bytes [a, b, c, d]) = [a, b, c, d]"
  unfolding bytes_of_word_def word_of_bytes_def
  by (simp; intro conjI; rule bit_word_eqI; auto simp: bit_simps dest: bit_imp_le_length)

lemma words_of_bytes_roundtrip:
  "length bs mod 4 = 0 \<Longrightarrow> bytes_of_words (words_of_bytes bs) = bs"
proof (induction bs rule: words_of_bytes.induct)
  case (1 a b c d rest)
  then have "length rest mod 4 = 0" by (simp add: mod_Suc split: if_splits)
  then show ?case
    using "1.IH" byte_roundtrip [of a b c d] by (simp add: bytes_of_words_def)
qed (simp_all add: bytes_of_words_def)

text \<open>
  Claim C6, at a file the code mishandles.  For a five-byte shader file \<^verbatim>\<open>readShaderFile\<close> throws
  nothing: it allocates one word and stores five bytes through its byte view, one past the end
  of the vector.  (A missing file does throw, and a file whose size is a multiple of four is
  returned word for word: the three lemmas above.)
\<close>

theorem shader_misaligned_not_rejected:
  "readShaderFile fs_misaligned ''shaders/pixelation.comp.spv'' = Inl OutOfBounds"
  by (rule readShaderFile_misaligned [where contents = "[3, 2, 35, 7, 0]"])
     (simp_all add: fs_misaligned_def)

section \<open>Pipeline set-up and teardown (claims C4 and C5)\<close>

lemma create_or_throw_None:
  "create_or_throw k st msg s = (None, s') \<longleftrightarrow>
     budget (snd s) \<noteq> 0
     \<and> s' = (st (Suc (created (snd s))) (fst s),
             (snd s)\<lparr>created := Suc (created (snd s)), budget := budget (snd s) - 1,
                      calls := calls (snd s) @ [Created k (Suc (created (snd s)))]\<rparr>)"
  by (auto simp: create_or_throw_def vk_create_def)

lemma allocate_or_throw_None:
  "allocate_or_throw n st msg s = (None, s') \<longleftrightarrow>
     budget (snd s) \<noteq> 0
     \<and> s' = (st (Suc (created (snd s))) (fst s),
             (snd s)\<lparr>created := Suc (created (snd s)), budget := budget (snd s) - 1,
                      calls := calls (snd s) @ [Created VkDeviceMemory (Suc (created (snd s)))],
                      memory := (memory (snd s))(Suc (created (snd s)) := replicate n 0)\<rparr>)"
  by (auto simp: allocate_or_throw_def vk_allocate_memory_def vk_create_def)

lemma run_steps_Cons_None:
  "run_steps (f # fs) s = (None, s') \<longleftrightarrow> (\<exists>s1. f s = (None, s1) \<and> run_steps fs s1 = (None, s'))"
  by (cases "f s") (auto split: option.splits)

lemma run_steps_Nil_None: "run_steps [] s = (None, s') \<longleftrightarrow> s' = s"
  by auto

lemma createShaderModule_None:
  "createShaderModule fs s = (None, s') \<longleftrightarrow>
     (\<exists>code. readShaderFile fs ''shaders/pixelation.comp.spv'' = Inr code)
     \<and> create_or_throw VkShaderModule (\<lambda>h c. c\<lparr>compute_shader := h\<rparr>)
            ''Failed to create compute shader module'' s = (None, s')"
  by (auto simp: createShaderModule_def split: sum.splits)

lemma allocateDescriptorSets_None:
  "allocateDescriptorSets s = (None, s') \<longleftrightarrow>
     budget (snd s) \<noteq> 0
     \<and> s' = ((fst s)\<lparr>descriptor_sets := (Suc (created (snd s)), Suc (Suc (created (snd s))))\<rparr>,
             (snd s)\<lparr>created := Suc (Suc (created (snd s))), budget := budget (snd s) - 1,
                 calls := calls (snd s) @ [Created VkDescriptorSet (Suc (created (snd s))),
                                        Created VkDescriptorSet (Suc (Suc (created (snd s))))]\<rparr>)"
  by (auto simp: allocateDescriptorSets_def Let_def)

lemma init_success:
  assumes "ComputePipeline_init fs w h (c0, vk0) = (None, c, vk)"
  shows "calls vk = calls vk0 @
           [Created VkImage (input_image c), Created VkImage (output_image c),
            Created VkDeviceMemory (input_image_memory c), Created VkDeviceMemory (output_image_memory c),
            Created VkImageView (input_image_view c), Created VkImageView (output_image_view c),
            Created VkBuffer (staging_buffer c), Created VkDeviceMemory (staging_buffer_memory c),
            Created VkShaderModule (compute_shader c),
            Created VkDescriptorSetLayout (descriptor_set_layout c),
            Created VkPipelineLayout (pipeline_layout c),
            Created VkPipeline (compute_pipeline c),
            Created VkDescriptorPool (descriptor_pool c),
            Created VkDescriptorSet (fst (descriptor_sets c)),
            Created VkDescriptorSet (snd (descriptor_sets c)),
            Created VkCommandBuffer (compute_command_buffer c),
            Created VkFence (compute_fence c)]"
    and "input_image c \<noteq> 0" "output_image c \<noteq> 0" "input_image_memory c \<noteq> 0"
      "output_image_memory c \<noteq> 0" "input_image_view c \<noteq> 0" "output_image_view c \<noteq> 0"
      "staging_buffer c \<noteq> 0" "staging_buffer_memory c \<noteq> 0" "compute_shader c \<noteq> 0"
      "descriptor_set_layout c \<noteq> 0" "pipeline_layout c \<noteq> 0" "compute_pipeline c \<noteq> 0"
      "descriptor_pool c \<noteq> 0" "compute_fence c \<noteq> 0"
    and "cp_width c = w" "cp_height c = h"
    and "length (memory vk (staging_buffer_memory c)) = unat (w * h * 4)"
  using assms
  unfolding ComputePipeline_init_def createImages_def createStagingBuffer_def
    createDescriptorSetLayout_def createPipelineLayout_def createComputePipeline_def
    createDescriptorPool_def updateDescriptorSets_def createCommandBuffer_def
    createSynchronization_def
  by (auto simp: run_steps_Cons_None run_steps_Nil_None create_or_throw_None
      allocate_or_throw_None createShaderModule_None allocateDescriptorSets_None
      simp del: run_steps.simps)

lemma cleanup_all_set:
  assumes "input_image c \<noteq> 0" "output_image c \<noteq> 0" "input_image_memory c \<noteq> 0"
      "output_image_memory c \<noteq> 0" "input_image_view c \<noteq> 0" "output_image_view c \<noteq> 0"
      "staging_buffer c \<noteq> 0" "staging_buffer_memory c \<noteq> 0" "compute_shader c \<noteq> 0"
      "descriptor_set_layout c \<noteq> 0" "pipeline_layout c \<noteq> 0" "compute_pipeline c \<noteq> 0"
      "descriptor_pool c \<noteq> 0" "compute_fence c \<noteq> 0"
  shows "ComputePipeline_cleanup (c, vk) =
     (c, vk\<lparr>calls := calls vk @
           [Destroyed VkFence (compute_fence c), Destroyed VkDescriptorPool (descriptor_pool c),
            Destroyed VkPipeline (compute_pipeline c), Destroyed VkPipelineLayout (pipeline_layout c),
            Destroyed VkDescriptorSetLayout (descriptor_set_layout c),
            Destroyed VkShaderModule (compute_shader c),
            Destroyed VkImageView (input_image_view c), Destroyed VkImageView (output_image_view c),
            Destroyed VkImage (input_image c), Destroyed VkImage (output_image c),
            Destroyed VkDeviceMemory (input_image_memory c),
            Destroyed VkDeviceMemory (output_image_memory c),
            Destroyed VkBuffer (staging_buffer c),
            Destroyed VkDeviceMemory (staging_buffer_memory c)]\<rparr>)"
  using assms by (simp add: ComputePipeline_cleanup_def destroy_if_set_def vk_destroy_def)

lemma readShaderFile_fs_ok:
  "readShaderFile fs_ok ''shaders/pixelation.comp.spv'' = Inr (words_of_bytes [3, 2, 35, 7])"
  by (rule readShaderFile_aligned) (simp_all add: fs_ok_def)

lemma ready_pipeline_eq:
  "ComputePipeline_init fs_ok 2 2 (null_pipeline, fresh_device) =
     (None,
      null_pipeline\<lparr>cp_width := 2, cp_height := 2, input_image := 1, output_image := 2,
        input_image_memory := 3, output_image_memory := 4, input_image_view := 5,
        output_image_view := 6, staging_buffer := 7, staging_buffer_memory := 8,
        compute_shader := 9, descriptor_set_layout := 10, pipeline_layout := 11,
        compute_pipeline := 12, descriptor_pool := 13, descriptor_sets := (14, 15),
        compute_command_buffer := 16, compute_fence := 17\<rparr>,
      \<lparr>created = 17, budget = 84,
       calls = [Created VkImage 1, Created VkImage 2, Created VkDeviceMemory 3, Created VkDeviceMemory 4,
                Created VkImageView 5, Created VkImageView 6, Created VkBuffer 7,
                Created VkDeviceMemory 8, Created VkShaderModule 9, Created VkDescriptorSetLayout 10,
                Created VkPipelineLayout 11, Created VkPipeline 12, Created VkDescriptorPool 13,
                Created VkDescriptorSet 14, Created VkDescriptorSet 15, Created VkCommandBuffer 16,
                Created VkFence 17],
       memory = (\<lambda>h. [])(3 := replicate 16 0, 4 := replicate 16 0, 8 := replicate 16 0)\<rparr>)"
proof -
  have e: "Suc (Suc (Suc 0)) = 3" "Suc (Suc (Suc (Suc 0))) = 4"
    "Suc (Suc (Suc (Suc (Suc (Suc (Suc (Suc 0))))))) = 8"
    by simp_all
  show ?thesis
    unfolding ComputePipeline_init_def createImages_def createStagingBuffer_def
      createDescriptorSetLayout_def createPipelineLayout_def createComputePipeline_def
      createDescriptorPool_def updateDescriptorSets_def createCommandBuffer_def
      createSynchronization_def createShaderModule_def allocateDescriptorSets_def
    by (simp add: readShaderFile_fs_ok create_or_throw_def allocate_or_throw_def
        vk_allocate_memory_def vk_create_def null_pipeline_def fresh_device_def Let_def e)
qed

text \<open>
  Claim C4, as amended.  After a successful \<^verbatim>\<open>init\<close> the device has seen, in this order, the
  creation of input image, output image, input memory, output memory, input view, output view,
  staging buffer, staging memory, shader module, descriptor-set layout, pipeline layout,
  pipeline, descriptor pool, the two descriptor sets, command buffer and fence; \<^verbatim>\<open>cleanup\<close> then
  destroys fence, descriptor pool, pipeline, pipeline layout, descriptor-set layout, shader
  module, input view, output view, input image, output image, input memory, output memory,
  staging buffer, staging memory.  So the six objects created from the shader module on are
  destroyed in exactly the reverse of their creation order and before every image and staging
  object; the image and staging objects go views, images, image memories, staging buffer,
  staging memory, each object before the memory that backs it, which is not the reverse of their
  creation; the descriptor sets and the command buffer are not released by \<^verbatim>\<open>cleanup\<close>.
\<close>

theorem cleanup_order:
  assumes "ComputePipeline_init fs w h (c0, vk0) = (None, c, vk)"
  shows "calls (snd (ComputePipeline_cleanup (c, vk))) =
         calls vk0 @
           [Created VkImage (input_image c), Created VkImage (output_image c),
            Created VkDeviceMemory (input_image_memory c), Created VkDeviceMemory (output_image_memory c),
            Created VkImageView (input_image_view c), Created VkImageView (output_image_view c),
            Created VkBuffer (staging_buffer c), Created VkDeviceMemory (staging_buffer_memory c),
            Created VkShaderModule (compute_shader c),
            Created VkDescriptorSetLayout (descriptor_set_layout c),
            Created VkPipelineLayout (pipeline_layout c),
            Created VkPipeline (compute_pipeline c),
            Created VkDescriptorPool (descriptor_pool c),
            Created VkDescriptorSet (fst (descriptor_sets c)),
            Created VkDescriptorSet (snd (descriptor_sets c)),
            Created VkCommandBuffer (compute_command_buffer c),
            Created VkFence (compute_fence c)] @
           [Destroyed VkFence (compute_fence c), Destroyed VkDescriptorPool (descriptor_pool c),
            Destroyed VkPipeline (compute_pipeline c), Destroyed VkPipelineLayout (pipeline_layout c),
            Destroyed VkDescriptorSetLayout (descriptor_set_layout c),
            Destroyed VkShaderModule (compute_shader c),
            Destroyed VkImageView (input_image_view c), Destroyed VkImageView (output_image_view c),
            Destroyed VkImage (input_image c), Destroyed VkImage (output_image c),
            Destroyed VkDeviceMemory (input_image_memory c),
            Destroyed VkDeviceMemory (output_image_memory c),
            Destroyed VkBuffer (staging_buffer c),
            Destroyed VkDeviceMemory (staging_buffer_memory c)]"
proof -
  note i = init_success [OF assms]
  show ?thesis
    unfolding cleanup_all_set [OF i(2-15)] using i(1) by simp
qed

text \<open>The theorem for \<^verbatim>\<open>init(2, 2)\<close> on the fresh device.\<close>

theorem cleanup_order_witness:
  "ComputePipeline_init fs_ok 2 2 (null_pipeline, fresh_device) = (None, ready_pipeline)
   \<and> calls (snd (ComputePipeline_cleanup ready_pipeline)) =
       [Created VkImage 1, Created VkImage 2, Created VkDeviceMemory 3, Created VkDeviceMemory 4,
        Created VkImageView 5, Created VkImageView 6, Created VkBuffer 7, Created VkDeviceMemory 8,
        Created VkShaderModule 9, Created VkDescriptorSetLayout 10, Created VkPipelineLayout 11,
        Created VkPipeline 12, Created VkDescriptorPool 13, Created VkDescriptorSet 14,
        Created VkDescriptorSet 15, Created VkCommandBuffer 16, Created VkFence 17,
        Destroyed VkFence 17, Destroyed VkDescriptorPool 13, Destroyed VkPipeline 12,
        Destroyed VkPipelineLayout 11, Destroyed VkDescriptorSetLayout 10, Destroyed VkShaderModule 9,
        Destroyed VkImageView 5, Destroyed VkImageView 6, Destroyed VkImage 1, Destroyed VkImage 2,
        Destroyed VkDeviceMemory 3, Destroyed VkDeviceMemory 4, Destroyed VkBuffer 7,
        Destroyed VkDeviceMemory 8]"
proof -
  obtain c vk where r: "ready_pipeline = (c, vk)" by (cases ready_pipeline) auto
  have i: "ComputePipeline_init fs_ok 2 2 (null_pipeline, fresh_device) = (None, c, vk)"
    using r by (simp only: ready_pipeline_def ready_pipeline_eq snd_conv)
  have c: "c = null_pipeline\<lparr>cp_width := 2, cp_height := 2, input_image := 1, output_image := 2,
        input_image_memory := 3, output_image_memory := 4, input_image_view := 5,
        output_image_view := 6, staging_buffer := 7, staging_buffer_memory := 8,
        compute_shader := 9, descriptor_set_layout := 10, pipeline_layout := 11,
        compute_pipeline := 12, descriptor_pool := 13, descriptor_sets := (14, 15),
        compute_command_buffer := 16, compute_fence := 17\<rparr>"
    using i unfolding ready_pipeline_eq by simp
  show ?thesis
    using cleanup_order [OF i] i r unfolding c by (simp add: fresh_device_def)
qed

lemma ready_pipeline_val:
  "ready_pipeline =
     (null_pipeline\<lparr>cp_width := 2, cp_height := 2, input_image := 1, output_image := 2,
        input_image_memory := 3, output_image_memory := 4, input_image_view := 5,
        output_image_view := 6, staging_buffer := 7, staging_buffer_memory := 8,
        compute_shader := 9, descriptor_set_layout := 10, pipeline_layout := 11,
        compute_pipeline := 12, descriptor_pool := 13, descriptor_sets := (14, 15),
        compute_command_buffer := 16, compute_fence := 17\<rparr>,
      \<lparr>created = 17, budget = 84,
       calls = [Created VkImage 1, Created VkImage 2, Created VkDeviceMemory 3, Created VkDeviceMemory 4,
                Created VkImageView 5, Created VkImageView 6, Created VkBuffer 7,
                Created VkDeviceMemory 8, Created VkShaderModule 9, Created VkDescriptorSetLayout 10,
                Created VkPipelineLayout 11, Created VkPipeline 12, Created VkDescriptorPool 13,
                Created VkDescriptorSet 14, Created VkDescriptorSet 15, Created VkCommandBuffer 16,
                Created VkFence 17],
       memory = (\<lambda>h. [])(3 := replicate 16 0, 4 := replicate 16 0, 8 := replicate 16 0)\<rparr>)"
  by (simp only: ready_pipeline_def ready_pipeline_eq snd_conv)

lemma ready_pipeline_cleanup:
  "ComputePipeline_cleanup ready_pipeline =
     (fst ready_pipeline,
      (snd ready_pipeline)\<lparr>calls := calls (snd ready_pipeline) @
        [Destroyed VkFence 17, Destroyed VkDescriptorPool 13, Destroyed VkPipeline 12,
         Destroyed VkPipelineLayout 11, Destroyed VkDescriptorSetLayout 10, Destroyed VkShaderModule 9,
         Destroyed VkImageView 5, Destroyed VkImageView 6, Destroyed VkImage 1, Destroyed VkImage 2,
         Destroyed VkDeviceMemory 3, Destroyed VkDeviceMemory 4, Destroyed VkBuffer 7,
         Destroyed VkDeviceMemory 8]\<rparr>)"
  unfolding ready_pipeline_val
  by (simp add: ComputePipeline_cleanup_def destroy_if_set_def vk_destroy_def)

lemma ready_pipeline_trace:
  "calls (snd (ComputePipeline_cleanup ready_pipeline)) =
       [Created VkImage 1, Created VkImage 2, Created VkDeviceMemory 3, Created VkDeviceMemory 4,
        Created VkImageView 5, Created VkImageView 6, Created VkBuffer 7, Created VkDeviceMemory 8,
        Created VkShaderModule 9, Created VkDescriptorSetLayout 10, Created VkPipelineLayout 11,
        Created VkPipeline 12, Created VkDescriptorPool 13, Created VkDescriptorSet 14,
        Created VkDescriptorSet 15, Created VkCommandBuffer 16, Created VkFence 17,
        Destroyed VkFence 17, Destroyed VkDescriptorPool 13, Destroyed VkPipeline 12,
        Destroyed VkPipelineLayout 11, Destroyed VkDescriptorSetLayout 10, Destroyed VkShaderModule 9,
        Destroyed VkImageView 5, Destroyed VkImageView 6, Destroyed VkImage 1, Destroyed VkImage 2,
        Destroyed VkDeviceMemory 3, Destroyed VkDeviceMemory 4, Destroyed VkBuffer 7,
        Destroyed VkDeviceMemory 8]"
  unfolding ready_pipeline_cleanup by (simp add: ready_pipeline_val)

text \<open>Claim C4 as stated fails: the destruction order is not the reverse of the creation
  order, also when the three objects that are never destroyed are left out.  The input image
  is created first and the staging buffer seventh, yet the image is destroyed before the
  buffer.\<close>

theorem cleanup_order_counterexample:
  "created_objects (calls (snd (ComputePipeline_cleanup ready_pipeline))) =
     [(VkImage, 1), (VkImage, 2), (VkDeviceMemory, 3), (VkDeviceMemory, 4), (VkImageView, 5),
      (VkImageView, 6), (VkBuffer, 7), (VkDeviceMemory, 8), (VkShaderModule, 9),
      (VkDescriptorSetLayout, 10), (VkPipelineLayout, 11), (VkPipeline, 12), (VkDescriptorPool, 13),
      (VkDescriptorSet, 14), (VkDescriptorSet, 15), (VkCommandBuffer, 16), (VkFence, 17)]
   \<and> destroyed_objects (calls (snd (ComputePipeline_cleanup ready_pipeline))) =
     [(VkFence, 17), (VkDescriptorPool, 13), (VkPipeline, 12), (VkPipelineLayout, 11),
      (VkDescriptorSetLayout, 10), (VkShaderModule, 9), (VkImageView, 5), (VkImageView, 6),
      (VkImage, 1), (VkImage, 2), (VkDeviceMemory, 3), (VkDeviceMemory, 4), (VkBuffer, 7),
      (VkDeviceMemory, 8)]
   \<and> destroyed_objects (calls (snd (ComputePipeline_cleanup ready_pipeline)))
       \<noteq> rev (created_objects (calls (snd (ComputePipeline_cleanup ready_pipeline))))
   \<and> destroyed_objects (calls (snd (ComputePipeline_cleanup ready_pipeline)))
       \<noteq> rev (removeAll (VkCommandBuffer, 16) (removeAll (VkDescriptorSet, 15)
              (removeAll (VkDescriptorSet, 14)
                (created_objects (calls (snd (ComputePipeline_cleanup ready_pipeline)))))))"
  by (simp add: ready_pipeline_trace)

lemma WebcamGrabber_cleanup_idem:
  "WebcamGrabber_cleanup (fst (WebcamGrabber_cleanup g os)) (snd (WebcamGrabber_cleanup g os))
   = WebcamGrabber_cleanup g os"
  by (simp add: WebcamGrabber_cleanup_def)

lemma cleanup_null_pipeline:
  "ComputePipeline_cleanup (null_pipeline, vk) = (null_pipeline, vk)"
  by (simp add: ComputePipeline_cleanup_def destroy_if_set_def null_pipeline_def)

text \<open>
  Claim C5, at a state the code mishandles.  \<^verbatim>\<open>ComputePipeline::cleanup\<close> tests every handle
  against \<^verbatim>\<open>VK_NULL_HANDLE\<close> but never resets one, so on an initialised pipeline a second call
  destroys all fourteen handles a second time.  (\<^verbatim>\<open>WebcamGrabber::cleanup\<close> does reset \<^verbatim>\<open>fd_\<close>
  and is idempotent, and \<^verbatim>\<open>cleanup\<close> of a pipeline whose handles are all null does nothing:
  the two lemmas above.)
\<close>

theorem cleanup_twice_destroys_twice:
  "destroyed_objects (calls (snd (ComputePipeline_cleanup ready_pipeline))) =
     [(VkFence, 17), (VkDescriptorPool, 13), (VkPipeline, 12), (VkPipelineLayout, 11),
      (VkDescriptorSetLayout, 10), (VkShaderModule, 9), (VkImageView, 5), (VkImageView, 6),
      (VkImage, 1), (VkImage, 2), (VkDeviceMemory, 3), (VkDeviceMemory, 4), (VkBuffer, 7),
      (VkDeviceMemory, 8)]
   \<and> destroyed_objects
       (calls (snd (ComputePipeline_cleanup (ComputePipeline_cleanup ready_pipeline)))) =
     [(VkFence, 17), (VkDescriptorPool, 13), (VkPipeline, 12), (VkPipelineLayout, 11),
      (VkDescriptorSetLayout, 10), (VkShaderModule, 9), (VkImageView, 5), (VkImageView, 6),
      (VkImage, 1), (VkImage, 2), (VkDeviceMemory, 3), (VkDeviceMemory, 4), (VkBuffer, 7),
      (VkDeviceMemory, 8),
      (VkFence, 17), (VkDescriptorPool, 13), (VkPipeline, 12), (VkPipelineLayout, 11),
      (VkDescriptorSetLayout, 10), (VkShaderModule, 9), (VkImageView, 5), (VkImageView, 6),
      (VkImage, 1), (VkImage, 2), (VkDeviceMemory, 3), (VkDeviceMemory, 4), (VkBuffer, 7),
      (VkDeviceMemory, 8)]"
  by (simp add: ready_pipeline_val cleanup_all_set)

section \<open>The per-frame upload (claim C9)\<close>

lemma upload_fits:
  assumes "getTotalBytes fr \<le> getStagingBufferSize c"
    and "getStagingBufferSize c \<le> length (memory vk (getStagingBufferMemory c))"
  shows "upload c vk fr =
         Inr (vk\<lparr>memory := (memory vk)(getStagingBufferMemory c :=
                 data fr @ drop (getTotalBytes fr) (memory vk (getStagingBufferMemory c)))\<rparr>)"
proof -
  let ?m = "memory vk (getStagingBufferMemory c)"
  let ?S = "getStagingBufferSize c"
  let ?n = "length (data fr)"
  have n: "?n \<le> ?S" "?S \<le> length ?m" using assms by (simp_all add: getTotalBytes_def)
  have w: "write_bytes (take ?S ?m) 0 (take ?n (data fr)) = Inr (data fr @ drop ?n (take ?S ?m))"
    using n by (simp add: write_bytes_def)
  have "drop ?n ?m = drop ?n (take ?S ?m @ drop ?S ?m)" by simp
  also have "\<dots> = drop ?n (take ?S ?m) @ drop ?S ?m"
    using n by (simp del: append_take_drop_id)
  finally have d: "drop ?n (take ?S ?m) @ drop ?S ?m = drop ?n ?m" by simp
  show ?thesis
    using w d by (simp add: upload_def Let_def getTotalBytes_def)
qed

lemma unat_1920_1080: "unat ((1920 :: u32) * 1080 * 4) = 8294400"
  by simp

text \<open>
  Claim C9, as amended.  The upload compares no sizes.  Whenever the frame is no longer than
  the mapped staging range, its bytes are copied verbatim to the start of the staging memory and
  the rest of that memory stays as it was, equal lengths or not.  That the two sizes agree is
  established by construction: with the frame source and the pipeline both set up for
  \<open>1920 \<times> 1080\<close>, as \<^verbatim>\<open>ObscuraRT::init\<close> does, every grabbed frame has \<open>8294400\<close> bytes, the
  staging capacity is \<open>8294400\<close> bytes, and after the upload the staging memory holds exactly the
  frame.
\<close>

theorem upload_copies_unchecked:
  "(getTotalBytes fr \<le> getStagingBufferSize c
      \<and> getStagingBufferSize c \<le> length (memory vk (getStagingBufferMemory c)) \<longrightarrow>
      upload c vk fr =
        Inr (vk\<lparr>memory := (memory vk)(getStagingBufferMemory c :=
                data fr @ drop (getTotalBytes fr) (memory vk (getStagingBufferMemory c)))\<rparr>))
   \<and> (width' g = 1920 \<and> height' g = 1080
        \<and> ComputePipeline_init fs 1920 1080 (c0, vk0) = (None, c1, vk1) \<longrightarrow>
        (\<exists>fr1 g1 vk2. FrameGrabber_grabFrame g out_frame = Inr (True, fr1, g1)
            \<and> getTotalBytes fr1 = 8294400 \<and> getStagingBufferSize c1 = 8294400
            \<and> upload c1 vk1 fr1 = Inr vk2
            \<and> memory vk2 (getStagingBufferMemory c1) = data fr1))"
proof (intro conjI impI)
  assume "getTotalBytes fr \<le> getStagingBufferSize c
      \<and> getStagingBufferSize c \<le> length (memory vk (getStagingBufferMemory c))"
  then show "upload c vk fr =
        Inr (vk\<lparr>memory := (memory vk)(getStagingBufferMemory c :=
                data fr @ drop (getTotalBytes fr) (memory vk (getStagingBufferMemory c)))\<rparr>)"
    using upload_fits by blast
next
  assume a: "width' g = 1920 \<and> height' g = 1080
        \<and> ComputePipeline_init fs 1920 1080 (c0, vk0) = (None, c1, vk1)"
  then have i: "ComputePipeline_init fs 1920 1080 (c0, vk0) = (None, c1, vk1)" by simp
  let ?fr = "\<lparr>width = width' g, height = height' g, stride = width' g * 4,
              data = pattern (width' g) (height' g)\<rparr>"
  have r: "FrameGrabber_grabFrame g out_frame =
             Inr (True, ?fr, g\<lparr>frame_count' := frame_count' g + 1\<rparr>)"
    using a by (intro FrameGrabber_grabFrame_pattern) simp_all
  have n: "getTotalBytes ?fr = 8294400"
    using a by (simp add: getTotalBytes_def length_pattern)
  have s: "getStagingBufferSize c1 = 8294400"
    using init_success(16,17) [OF i] by (simp add: getStagingBufferSize_def)
  have m: "length (memory vk1 (getStagingBufferMemory c1)) = 8294400"
    using init_success(18) [OF i] by (simp add: getStagingBufferMemory_def)
  have u: "upload c1 vk1 ?fr =
         Inr (vk1\<lparr>memory := (memory vk1)(getStagingBufferMemory c1 :=
                 data ?fr @ drop (getTotalBytes ?fr) (memory vk1 (getStagingBufferMemory c1)))\<rparr>)"
    using n s m by (intro upload_fits) simp_all
  have e: "drop (getTotalBytes ?fr) (memory vk1 (getStagingBufferMemory c1)) = []"
    using n m by simp
  show "\<exists>fr1 g1 vk2. FrameGrabber_grabFrame g out_frame = Inr (True, fr1, g1)
            \<and> getTotalBytes fr1 = 8294400 \<and> getStagingBufferSize c1 = 8294400
            \<and> upload c1 vk1 fr1 = Inr vk2
            \<and> memory vk2 (getStagingBufferMemory c1) = data fr1"
    using r n s u e by (intro exI [of _ ?fr] exI [of _ "g\<lparr>frame_count' := frame_count' g + 1\<rparr>"]
        exI [of _ "vk1\<lparr>memory := (memory vk1)(getStagingBufferMemory c1 :=
                 data ?fr @ drop (getTotalBytes ?fr) (memory vk1 (getStagingBufferMemory c1)))\<rparr>"])
       simp
qed

text \<open>Claim C9 as stated fails: a four-byte frame uploaded to a sixteen-byte staging buffer
  is not rejected; its bytes are copied and the call returns normally.\<close>

theorem upload_mismatch_counterexample:
  "getTotalBytes short_frame = 4
   \<and> getStagingBufferSize (fst ready_pipeline) = 16
   \<and> upload (fst ready_pipeline) (snd ready_pipeline) short_frame =
       Inr ((snd ready_pipeline)\<lparr>memory := (memory (snd ready_pipeline))
              (8 := [1, 2, 3, 4, 0, 0, 0, 0, 0, 0, 0, 0, 0, 0, 0, 0])\<rparr>)"
proof -
  have s: "getStagingBufferSize (fst ready_pipeline) = 16"
    "getStagingBufferMemory (fst ready_pipeline) = 8"
    by (simp_all add: ready_pipeline_val getStagingBufferSize_def getStagingBufferMemory_def)
  have m: "memory (snd ready_pipeline) 8 = replicate 16 0"
    by (simp add: ready_pipeline_val)
  have n: "getTotalBytes short_frame = 4" by (simp add: short_frame_def getTotalBytes_def)
  have "upload (fst ready_pipeline) (snd ready_pipeline) short_frame =
         Inr ((snd ready_pipeline)\<lparr>memory := (memory (snd ready_pipeline))
            (getStagingBufferMemory (fst ready_pipeline) :=
               data short_frame @ drop (getTotalBytes short_frame)
                 (memory (snd ready_pipeline) (getStagingBufferMemory (fst ready_pipeline))))\<rparr>)"
    using s m n by (intro upload_fits) simp_all
  moreover have "data short_frame @ drop 4 (replicate 16 (0 :: u8))
                 = [1, 2, 3, 4, 0, 0, 0, 0, 0, 0, 0, 0, 0, 0, 0, 0]"
    by (simp add: short_frame_def numeral_eq_Suc)
  ultimately show ?thesis using s m n by simp
qed

lemma init_fresh_ok:
  "fst (ComputePipeline_init fs_ok w h (null_pipeline, fresh_device)) = None"
  unfolding ComputePipeline_init_def createImages_def createStagingBuffer_def
    createDescriptorSetLayout_def createPipelineLayout_def createComputePipeline_def
    createDescriptorPool_def updateDescriptorSets_def createCommandBuffer_def
    createSynchronization_def createShaderModule_def allocateDescriptorSets_def
  by (simp add: readShaderFile_fs_ok create_or_throw_def allocate_or_throw_def
      vk_allocate_memory_def vk_create_def fresh_device_def Let_def)

text \<open>The theorem on the \<open>2 \<times> 2\<close> pipeline with the four-byte frame, and on the
  \<open>1920 \<times> 1080\<close> grabber and pipeline of the program.\<close>

theorem upload_copies_unchecked_witness:
  "getTotalBytes short_frame \<le> getStagingBufferSize (fst ready_pipeline)
   \<and> getStagingBufferSize (fst ready_pipeline)
       \<le> length (memory (snd ready_pipeline) (getStagingBufferMemory (fst ready_pipeline)))
   \<and> upload (fst ready_pipeline) (snd ready_pipeline) short_frame =
        Inr ((snd ready_pipeline)\<lparr>memory := (memory (snd ready_pipeline))
           (getStagingBufferMemory (fst ready_pipeline) :=
              data short_frame @ drop (getTotalBytes short_frame)
                (memory (snd ready_pipeline) (getStagingBufferMemory (fst ready_pipeline))))\<rparr>)
   \<and> width' (FrameGrabber_new 1920 1080) = 1920 \<and> height' (FrameGrabber_new 1920 1080) = 1080
   \<and> fst (ComputePipeline_init fs_ok 1920 1080 (null_pipeline, fresh_device)) = None
   \<and> (\<exists>fr1 g1 vk2.
         FrameGrabber_grabFrame (FrameGrabber_new 1920 1080) empty_frame = Inr (True, fr1, g1)
         \<and> getTotalBytes fr1 = 8294400
         \<and> getStagingBufferSize
              (fst (snd (ComputePipeline_init fs_ok 1920 1080 (null_pipeline, fresh_device))))
            = 8294400
         \<and> upload (fst (snd (ComputePipeline_init fs_ok 1920 1080 (null_pipeline, fresh_device))))
              (snd (snd (ComputePipeline_init fs_ok 1920 1080 (null_pipeline, fresh_device)))) fr1
            = Inr vk2)"
proof -
  let ?g = "FrameGrabber_new 1920 1080"
  let ?c = "fst ready_pipeline" and ?vk = "snd ready_pipeline"
  have h1: "getTotalBytes short_frame \<le> getStagingBufferSize ?c
      \<and> getStagingBufferSize ?c \<le> length (memory ?vk (getStagingBufferMemory ?c))"
    by (simp add: ready_pipeline_val getStagingBufferSize_def getStagingBufferMemory_def
        short_frame_def getTotalBytes_def)
  obtain c1 vk1 where
    i: "ComputePipeline_init fs_ok 1920 1080 (null_pipeline, fresh_device) = (None, c1, vk1)"
    using init_fresh_ok [of 1920 1080]
    by (cases "ComputePipeline_init fs_ok 1920 1080 (null_pipeline, fresh_device)") auto
  have h2: "width' ?g = 1920 \<and> height' ?g = 1080
        \<and> ComputePipeline_init fs_ok 1920 1080 (null_pipeline, fresh_device) = (None, c1, vk1)"
    using i by (simp add: FrameGrabber_new_def)
  note t = upload_copies_unchecked [of short_frame ?c ?vk ?g fs_ok null_pipeline fresh_device
      c1 vk1 empty_frame]
  have a: "upload ?c ?vk short_frame =
        Inr (?vk\<lparr>memory := (memory ?vk)(getStagingBufferMemory ?c :=
              data short_frame @ drop (getTotalBytes short_frame)
                (memory ?vk (getStagingBufferMemory ?c)))\<rparr>)"
    using t h1 by blast
  have b: "\<exists>fr1 g1 vk2. FrameGrabber_grabFrame ?g empty_frame = Inr (True, fr1, g1)
            \<and> getTotalBytes fr1 = 8294400 \<and> getStagingBufferSize c1 = 8294400
            \<and> upload c1 vk1 fr1 = Inr vk2
            \<and> memory vk2 (getStagingBufferMemory c1) = data fr1"
    using t h2 by blast
  show ?thesis
    using h1 a h2 b unfolding i by (simp add: init_fresh_ok) blast
qed

end
